theory Spec2Isabelle
  imports Complex_Main
begin

section \<open>Data model\<close>

text \<open>
  The rows that belong to one analytics session, as \<^verbatim>\<open>models.py\<close> declares them.
  Every column that a handler below reads or writes is a field; what no handler below
  touches is left out: primary and foreign keys, creation timestamps, the title and the
  owner of a session, the metadata columns of a message that are never set.  Rows are
  identified by their place: a message by its position in the list of the session's
  messages.  The string-valued status columns only ever hold the values listed in the
  column comments, so each is a datatype.  A timestamp is a reading of the clock, a
  natural number.
\<close>

datatype step = Query | Ambiguity | Context | Processing | Completed

datatype session_status = SessActive | SessProcessing | SessCompleted | SessStopped

datatype message_type = User | Assistant | AmbiguityMessage

datatype message_status = MsgActive | MsgCompleted | MsgContextConfirmation

datatype ambiguity_status = AmbActive | AmbContextConfirmation | AmbCompleted | AmbConfirmed

record session_row =
  domain :: string
  current_step :: step
  status :: session_status
  updated_at :: nat

record message =
  m_type :: message_type
  content :: string
  m_status :: "message_status option"
  current_question :: "string option"
  answered_questions :: nat
  total_questions :: nat
  all_questions :: "string list option"
  expanded :: bool

text \<open>
  \<^verbatim>\<open>AmbiguityData.questions\<close> and \<^verbatim>\<open>answers\<close> are JSON text columns read through
  \<^verbatim>\<open>get_questions\<close>/\<^verbatim>\<open>get_answers\<close> and written through \<^verbatim>\<open>set_questions\<close>/\<^verbatim>\<open>set_answers\<close>;
  \<^verbatim>\<open>json.loads (json.dumps xs)\<close> is \<^verbatim>\<open>xs\<close> for a list of strings, so the model holds the lists.
\<close>

record ambiguity_data =
  questions :: "string list"
  answers :: "string list"
  current_question_index :: nat
  a_status :: ambiguity_status
  completed_questions_at :: "nat option"
  completed_at :: "nat option"

datatype processing_state =
  ProcInitializing | ProcProcessing | ProcCompleted | ProcStopped | ProcFailed

datatype stage_status = Queued | StageProcessing | StageCompleted | StageStopped | Cancelled

datatype log_type = Info | Success | Warning | Error

text \<open>
  One entry of the JSON list \<^verbatim>\<open>ProcessingStatus.stages\<close>.  \<^verbatim>\<open>progress\<close> is a JSON number
  (the integer 0 or 100, or a float computed by the simulator).
\<close>

record stage =
  stage_id :: string
  stage_name :: string
  icon :: string
  stage_status :: stage_status
  progress :: real
  started_at :: "nat option"
  stage_completed_at :: "nat option"

record processing_config =
  processing_time :: real
  analytics_depth :: string
  reporting_style :: string
  cross_validation :: string

record processing_status =
  p_status :: processing_state
  current_stage :: nat
  overall_progress :: real
  stages :: "stage list"
  config :: processing_config
  p_completed_at :: "nat option"
  error :: "string option"

record processing_log =
  log_message :: string
  log_type :: log_type

record conversation_cycle =
  cycle_number :: nat
  cycle_type :: string
  initial_query :: string
  cycle_step :: step
  ambiguity_started_at :: "nat option"

text \<open>
  The persisted state of one session: its row, its messages in timestamp order (the order
  \<^verbatim>\<open>get_session_messages\<close> returns), its at most one AmbiguityData row, its at most one
  ProcessingStatus row, the processing logs in timestamp order and the conversation cycles.
\<close>

record app_state =
  session :: session_row
  messages :: "message list"
  ambiguity :: "ambiguity_data option"
  processing :: "processing_status option"
  logs :: "processing_log list"
  cycles :: "conversation_cycle list"

datatype http_error = HttpError nat string

section \<open>Configuration (\<^verbatim>\<open>config.py\<close>)\<close>

definition DOMAIN_AMBIGUITY_QUESTIONS :: "(string \<times> string list) list" where
  \<open>DOMAIN_AMBIGUITY_QUESTIONS = [
    (''Finance'', [
      ''By "regional differences" - do you mean geographical regions, sales territories, or market segments?'',
      ''For "customer acquisition metrics" - should I include CAC, LTV, or specific conversion rates?'']),
    (''Marketing'', [
      ''By "campaign performance" - do you mean ROI, engagement rates, or conversion metrics?'',
      ''For "audience segmentation" - should I focus on demographics, behavior, or psychographics?'']),
    (''Sales'', [
      ''By "sales performance" - do you mean revenue, volume, or conversion rates?'',
      ''For "territory analysis" - should I segment by geography, industry, or account size?'']),
    (''Operations'', [
      ''By "operational efficiency" - do you mean cost reduction, time optimization, or quality metrics?'',
      ''For "process analysis" - should I focus on bottlenecks, resource allocation, or workflow optimization?'']),
    (''Human Resources'', [
      ''By "employee performance" - do you mean productivity, satisfaction, or retention metrics?'',
      ''For "workforce analysis" - should I segment by department, role level, or tenure?'']),
    (''Technology'', [
      ''By "system performance" - do you mean response time, throughput, or reliability metrics?'',
      ''For "technology stack analysis" - should I focus on infrastructure, applications, or security?'']),
    (''Customer Service'', [
      ''By "service quality" - do you mean response time, resolution rate, or customer satisfaction?'',
      ''For "channel analysis" - should I include phone, email, chat, or all support channels?'']),
    (''Product Management'', [
      ''By "product performance" - do you mean usage metrics, feature adoption, or user satisfaction?'',
      ''For "product analysis" - should I focus on individual features, product lines, or entire portfolio?'']),
    (''Supply Chain'', [
      ''By "supply chain efficiency" - do you mean cost, delivery time, or inventory optimization?'',
      ''For "vendor analysis" - should I focus on performance, cost, or risk assessment?'']),
    (''Legal'', [
      ''By "legal analysis" - do you mean compliance metrics, case outcomes, or risk assessment?'',
      ''For "regulatory focus" - should I prioritize specific jurisdictions or regulations?''])]\<close>

definition ADDITIONAL_QUESTIONS :: "string list" where
  "ADDITIONAL_QUESTIONS = [
    ''Should I include seasonal adjustments in the analysis?'',
    ''Do you want to segment by product categories or customer types?'',
    ''Are there any specific constraints or limitations to consider?'']"

section \<open>Database service (\<^verbatim>\<open>db_service.py\<close>)\<close>

text \<open>
  Each operation commits; it takes the state and returns the new one.  An update is given
  as the function that sets the named columns.  Where the source reads the clock
  (\<^verbatim>\<open>datetime.utcnow()\<close>) the reading is an argument.
\<close>

text \<open>\<^verbatim>\<open>create_session\<close>: a new session starts at step \<^verbatim>\<open>query\<close> with status \<^verbatim>\<open>active\<close>.\<close>

definition create_session :: "string \<Rightarrow> nat \<Rightarrow> app_state" where
  "create_session dname now =
     \<lparr>session = \<lparr>domain = dname, current_step = Query, status = SessActive, updated_at = now\<rparr>,
      messages = [], ambiguity = None, processing = None, logs = [], cycles = []\<rparr>"

definition update_session :: "(session_row \<Rightarrow> session_row) \<Rightarrow> nat \<Rightarrow> app_state \<Rightarrow> app_state" where
  "update_session updates now s = s\<lparr>session := (updates (session s))\<lparr>updated_at := now\<rparr>\<rparr>"

definition add_message :: "message \<Rightarrow> nat \<Rightarrow> app_state \<Rightarrow> app_state" where
  "add_message m now s =
     s\<lparr>messages := messages s @ [m], session := (session s)\<lparr>updated_at := now\<rparr>\<rparr>"

definition update_ambiguity_data :: "(ambiguity_data \<Rightarrow> ambiguity_data) \<Rightarrow> app_state \<Rightarrow> app_state" where
  "update_ambiguity_data updates s =
     (case ambiguity s of None \<Rightarrow> s | Some a \<Rightarrow> s\<lparr>ambiguity := Some (updates a)\<rparr>)"

text \<open>
  \<^verbatim>\<open>create_ambiguity_data\<close>: the column \<^verbatim>\<open>session_id\<close> is unique, so a second row for the
  session is refused by the database (an IntegrityError, here \<open>None\<close>).
\<close>

definition create_ambiguity_data :: "string list \<Rightarrow> app_state \<Rightarrow> app_state option" where
  "create_ambiguity_data qs s =
     (case ambiguity s of
        Some a \<Rightarrow> None
      | None \<Rightarrow> Some (s\<lparr>ambiguity := Some \<lparr>questions = qs, answers = [],
                 current_question_index = 0, a_status = AmbActive,
                 completed_questions_at = None, completed_at = None\<rparr>\<rparr>))"

section \<open>Ambiguity resolution (\<^verbatim>\<open>resources/ambiguity.py\<close>)\<close>

text \<open>
  \<^verbatim>\<open>_update_ambiguity_message\<close> walks the session's messages in order and updates the first
  one of type \<^verbatim>\<open>ambiguity\<close> (then \<^verbatim>\<open>break\<close>).  All four callers pass the four keys
  \<^verbatim>\<open>currentQuestion\<close>, \<^verbatim>\<open>answeredQuestions\<close>, \<^verbatim>\<open>totalQuestions\<close>, \<^verbatim>\<open>status\<close>.
\<close>

fun update_first_ambiguity :: "(message \<Rightarrow> message) \<Rightarrow> message list \<Rightarrow> message list" where
  "update_first_ambiguity f [] = []"
| "update_first_ambiguity f (m # ms) =
     (if m_type m = AmbiguityMessage then f m # ms else m # update_first_ambiguity f ms)"

definition update_ambiguity_message ::
  "string option \<Rightarrow> nat \<Rightarrow> nat \<Rightarrow> message_status \<Rightarrow> app_state \<Rightarrow> app_state" where
  "update_ambiguity_message currentQuestion answeredQuestions totalQuestions st s =
     s\<lparr>messages := update_first_ambiguity
        (\<lambda>m. m\<lparr>current_question := currentQuestion, answered_questions := answeredQuestions,
               total_questions := totalQuestions, m_status := Some st\<rparr>) (messages s)\<rparr>"

text \<open>
  \<^verbatim>\<open>_handle_single_answer\<close>.  \<open>clk 0\<close> and \<open>clk 1\<close> are the two readings of the clock the
  last branch makes.  The body of the success response repeats values of the new state and
  is not part of the result.
\<close>

definition handle_single_answer ::
  "(nat \<Rightarrow> nat) \<Rightarrow> string \<Rightarrow> app_state \<Rightarrow> http_error + app_state" where
  "handle_single_answer clk answer s =
     (case ambiguity s of
        None \<Rightarrow> Inl (HttpError 404 ''No ambiguity data found'')
      | Some ambiguity_data \<Rightarrow>
         (let current_answers = answers ambiguity_data;
              current_questions = questions ambiguity_data;
              new_answers = current_answers @ [answer];
              new_index = length new_answers
          in if length new_answers < length current_questions then
               (let next_question_index = length new_answers;
                    next_question = current_questions ! next_question_index;
                    s1 = update_ambiguity_data
                           (\<lambda>a. a\<lparr>answers := new_answers, current_question_index := new_index\<rparr>) s;
                    s2 = update_ambiguity_message (Some next_question) (length new_answers)
                           (length current_questions) MsgActive s1
                in Inr s2)
             else
               (let s1 = update_ambiguity_data
                           (\<lambda>a. a\<lparr>answers := new_answers, current_question_index := new_index,
                                  a_status := AmbContextConfirmation,
                                  completed_questions_at := Some (clk 0)\<rparr>) s;
                    s2 = update_ambiguity_message None (length new_answers)
                           (length current_questions) MsgContextConfirmation s1;
                    s3 = update_session (\<lambda>r. r\<lparr>current_step := Context\<rparr>) (clk 1) s2
                in Inr s3)))"

text \<open>\<^verbatim>\<open>_handle_batch_answers\<close>; \<^verbatim>\<open>new_answers[:len(current_questions)]\<close> is \<open>take\<close>.\<close>

definition handle_batch_answers ::
  "(nat \<Rightarrow> nat) \<Rightarrow> string list \<Rightarrow> app_state \<Rightarrow> http_error + app_state" where
  "handle_batch_answers clk answers_batch s =
     (case ambiguity s of
        None \<Rightarrow> Inl (HttpError 404 ''No ambiguity data found'')
      | Some ambiguity_data \<Rightarrow>
         (let current_answers = answers ambiguity_data;
              current_questions = questions ambiguity_data;
              new_answers = current_answers @ answers_batch;
              new_index = length new_answers
          in if length new_answers \<ge> length current_questions then
               (let s1 = update_ambiguity_data
                           (\<lambda>a. a\<lparr>answers := take (length current_questions) new_answers,
                                  current_question_index := length current_questions,
                                  a_status := AmbContextConfirmation,
                                  completed_questions_at := Some (clk 0)\<rparr>) s;
                    s2 = update_ambiguity_message None (length current_questions)
                           (length current_questions) MsgContextConfirmation s1;
                    s3 = update_session (\<lambda>r. r\<lparr>current_step := Context\<rparr>) (clk 1) s2
                in Inr s3)
             else
               (let next_question_index = length new_answers;
                    next_question = current_questions ! next_question_index;
                    s1 = update_ambiguity_data
                           (\<lambda>a. a\<lparr>answers := new_answers, current_question_index := new_index\<rparr>) s;
                    s2 = update_ambiguity_message (Some next_question) (length new_answers)
                           (length current_questions) MsgActive s1
                in Inr s2)))"

text \<open>
  Submitting answers one at a time: one call of the single-answer handler per answer, each
  with its own clock readings (\<open>clks k\<close> for the \<open>k\<close>-th call); the first failing call ends
  the sequence.
\<close>

fun submit_one_at_a_time ::
  "(nat \<Rightarrow> nat \<Rightarrow> nat) \<Rightarrow> nat \<Rightarrow> string list \<Rightarrow> app_state \<Rightarrow> http_error + app_state" where
  "submit_one_at_a_time clks k [] s = Inr s"
| "submit_one_at_a_time clks k (answer # rest) s =
     (case handle_single_answer (clks k) answer s of
        Inl e \<Rightarrow> Inl e
      | Inr s' \<Rightarrow> submit_one_at_a_time clks (Suc k) rest s')"

text \<open>
  \<^verbatim>\<open>list(dict.fromkeys(xs))\<close>: the keys of a dict are kept in the order of their first
  insertion, so a key already seen is skipped.
\<close>

fun fromkeys :: "'a list \<Rightarrow> 'a list \<Rightarrow> 'a list" where
  "fromkeys seen [] = seen"
| "fromkeys seen (x # xs) = (if x \<in> set seen then fromkeys seen xs else fromkeys (seen @ [x]) xs)"

definition list_dict_fromkeys :: "'a list \<Rightarrow> 'a list" where
  "list_dict_fromkeys xs = fromkeys [] xs"

definition clean_duplicate_questions :: "app_state \<Rightarrow> app_state" where
  "clean_duplicate_questions s =
     (case ambiguity s of
        None \<Rightarrow> s
      | Some ambiguity_data \<Rightarrow>
         (let current_questions = questions ambiguity_data
          in if length current_questions = 0 then s
             else
               (let cleaned_questions = list_dict_fromkeys current_questions
                in if length cleaned_questions \<noteq> length current_questions then
                     (let answers_count = length (answers ambiguity_data);
                          new_index = (if length cleaned_questions > 0
                                       then min answers_count (length cleaned_questions - 1) else 0)
                      in update_ambiguity_data
                           (\<lambda>a. a\<lparr>questions := cleaned_questions,
                                  current_question_index := new_index\<rparr>) s)
                   else s)))"

text \<open>
  \<^verbatim>\<open>_continue_resolving\<close>.  \<^verbatim>\<open>session_data\<close> is the session row read before the call, so
  the domain is the one of the state the handler starts from.
\<close>

definition continue_resolving :: "nat \<Rightarrow> app_state \<Rightarrow> http_error + app_state" where
  "continue_resolving now s =
     (let s0 = clean_duplicate_questions s
      in case ambiguity s0 of
           None \<Rightarrow> Inl (HttpError 404 ''No ambiguity data found'')
         | Some ambiguity_data \<Rightarrow>
            (let current_questions = questions ambiguity_data;
                 current_answers = answers ambiguity_data;
                 additional_questions = ADDITIONAL_QUESTIONS;
                 initial_questions =
                   (case map_of DOMAIN_AMBIGUITY_QUESTIONS (domain (session s)) of
                      None \<Rightarrow> [] | Some qs \<Rightarrow> qs);
                 initial_count = length initial_questions;
                 cleaned_questions = list_dict_fromkeys current_questions;
                 extended_questions =
                   (if length cleaned_questions \<le> initial_count then
                      (let unique_additional =
                             filter (\<lambda>q. q \<notin> set cleaned_questions) additional_questions
                       in cleaned_questions @ unique_additional)
                    else cleaned_questions);
                 s1 = update_ambiguity_data
                        (\<lambda>a. a\<lparr>questions := extended_questions, a_status := AmbActive\<rparr>) s0;
                 s2 = update_session (\<lambda>r. r\<lparr>current_step := Ambiguity\<rparr>) now s1;
                 next_question_index = length current_answers;
                 current_question =
                   (if next_question_index < length extended_questions
                    then extended_questions ! next_question_index
                    else ''What additional analysis details would you like to specify?'');
                 s3 = update_ambiguity_message (Some current_question) (length current_answers)
                        (length extended_questions) MsgActive s2
             in Inr s3))"

section \<open>Message creation (\<^verbatim>\<open>resources/messages.py\<close>)\<close>

text \<open>
  \<^verbatim>\<open>create_conversation_cycle\<close> numbers the new cycle one above the greatest number of the
  session's cycles, or 1 when there is none; \<^verbatim>\<open>update_conversation_cycle\<close> with
  \<^verbatim>\<open>current_step = 'ambiguity'\<close> sets the step of that cycle and stamps
  \<^verbatim>\<open>ambiguity_started_at\<close> when it is not set yet.  The cycle updated is the one just
  created, the last of the list.
\<close>

definition create_conversation_cycle :: "string \<Rightarrow> string \<Rightarrow> app_state \<Rightarrow> app_state" where
  "create_conversation_cycle ctype query s =
     (let next_cycle_number = foldr max (map cycle_number (cycles s)) 0 + 1
      in s\<lparr>cycles := cycles s @ [\<lparr>cycle_number = next_cycle_number, cycle_type = ctype,
             initial_query = query, cycle_step = Query, ambiguity_started_at = None\<rparr>]\<rparr>)"

definition update_conversation_cycle_ambiguity :: "nat \<Rightarrow> app_state \<Rightarrow> app_state" where
  "update_conversation_cycle_ambiguity now s =
     (case rev (cycles s) of
        [] \<Rightarrow> s
      | c # earlier \<Rightarrow>
          s\<lparr>cycles := rev earlier @
             [c\<lparr>cycle_step := Ambiguity,
                ambiguity_started_at :=
                  (case ambiguity_started_at c of None \<Rightarrow> Some now | Some t \<Rightarrow> Some t)\<rparr>]\<rparr>)"

text \<open>
  The result of a handler that can fail after it has committed: \<open>Inl\<close> carries the error
  and the state left behind.  \<open>messages_count\<close> is the number of messages the session had
  when the request read it, before the user's message was added.
\<close>

definition handle_initial_query ::
  "(nat \<Rightarrow> nat) \<Rightarrow> string \<Rightarrow> nat \<Rightarrow> string \<Rightarrow> app_state \<Rightarrow> (string \<times> app_state) + app_state" where
  \<open>handle_initial_query clk query messages_count dname s =
     (let ctype = (if messages_count = 0 then ''initial'' else ''followup'');
          s1 = create_conversation_cycle ctype query s;
          s2 = update_session (\<lambda>r. r\<lparr>current_step := Ambiguity\<rparr>) (clk 1) s1;
          s3 = update_conversation_cycle_ambiguity (clk 2) s2
      in case map_of DOMAIN_AMBIGUITY_QUESTIONS ''Finance'' of
           None \<Rightarrow> Inl (''KeyError'', s3)
         | Some finance_questions \<Rightarrow>
            (let ambiguity_questions =
                   (case map_of DOMAIN_AMBIGUITY_QUESTIONS dname of
                      Some qs \<Rightarrow> qs | None \<Rightarrow> finance_questions)
             in case create_ambiguity_data ambiguity_questions s3 of
                  None \<Rightarrow> Inl (''IntegrityError'', s3)
                | Some s4 \<Rightarrow>
                   (case ambiguity_questions of
                      [] \<Rightarrow> Inl (''list index out of range'', s4)
                    | first_question # _ \<Rightarrow>
                        Inr (add_message
                          \<lparr>m_type = AmbiguityMessage,
                           content = ''I need to clarify a few domain-specific terms to ensure accurate analysis:'',
                           m_status = Some MsgActive,
                           current_question = Some first_question,
                           answered_questions = 0,
                           total_questions = length ambiguity_questions,
                           all_questions = Some ambiguity_questions,
                           expanded = True\<rparr> (clk 3) s4))))\<close>

text \<open>
  \<^verbatim>\<open>_handle_ambiguity_response\<close> returns the empty list at once; the statements after the
  \<^verbatim>\<open>return\<close> are never run.
\<close>

definition handle_ambiguity_response :: "string \<Rightarrow> app_state \<Rightarrow> app_state" where
  "handle_ambiguity_response query s = s"

definition handle_followup_query :: "(nat \<Rightarrow> nat) \<Rightarrow> string \<Rightarrow> app_state \<Rightarrow> app_state" where
  \<open>handle_followup_query clk query s =
     add_message
       \<lparr>m_type = Assistant,
        content = ''Thank you for your follow-up question: "'' @ query @
          ''". This functionality would typically provide additional insights based on your query and the previous analysis context. The system would analyze your question in relation to the completed analytics session and provide relevant additional information or clarifications.'',
        m_status = Some MsgCompleted,
        current_question = None, answered_questions = 0, total_questions = 0,
        all_questions = None, expanded = False\<rparr> (clk 1) s\<close>

text \<open>
  \<^verbatim>\<open>MessagesCreate.post\<close> after the session and ownership checks.  \<open>query\<close> is the
  request's \<^verbatim>\<open>content\<close> after \<^verbatim>\<open>.strip()\<close>.  An exception of a branch is caught by the
  handler and answered with status 500; what was committed before stays.
\<close>

definition messages_create_post ::
  "(nat \<Rightarrow> nat) \<Rightarrow> string \<Rightarrow> app_state \<Rightarrow> (http_error \<times> app_state) + app_state" where
  "messages_create_post clk query s =
     (if query = [] then Inl (HttpError 400 ''Message content is required'', s)
      else
        (let session_dict = session s;
             messages_count = length (messages s);
             s1 = add_message
                    \<lparr>m_type = User, content = query, m_status = Some MsgCompleted,
                     current_question = None, answered_questions = 0, total_questions = 0,
                     all_questions = None, expanded = False\<rparr> (clk 0) s
         in if current_step session_dict = Query then
              (case handle_initial_query clk query messages_count (domain session_dict) s1 of
                 Inl (e, s') \<Rightarrow> Inl (HttpError 500 (''Failed to create message: '' @ e), s')
               | Inr s' \<Rightarrow> Inr s')
            else if current_step session_dict = Ambiguity then
              Inr (handle_ambiguity_response query s1)
            else if current_step session_dict = Completed then
              Inr (handle_followup_query clk query s1)
            else Inr s1))"

section \<open>Processing configuration (\<^verbatim>\<open>config.py\<close>)\<close>

definition MIN_PROCESSING_TIME :: real where "MIN_PROCESSING_TIME = 3"
definition MAX_PROCESSING_TIME :: real where "MAX_PROCESSING_TIME = 30"
definition DEFAULT_PROCESSING_TIME :: real where "DEFAULT_PROCESSING_TIME = 6"

definition ANALYSIS_DEPTHS :: "string list" where
  "ANALYSIS_DEPTHS = [''basic'', ''moderate'', ''deep'']"
definition REPORT_FORMATS :: "string list" where
  "REPORT_FORMATS = [''executive'', ''detailed'', ''visual'']"
definition VALIDATION_LEVELS :: "string list" where
  "VALIDATION_LEVELS = [''low'', ''medium'', ''high'']"

record stage_config =
  cfg_id :: string
  cfg_name :: string
  cfg_icon :: string
  duration :: nat

definition PROCESSING_STAGES :: "stage_config list" where
  "PROCESSING_STAGES = [
    \<lparr>cfg_id = ''planning'', cfg_name = ''Planning'', cfg_icon = ''Database'', duration = 15\<rparr>,
    \<lparr>cfg_id = ''coding'', cfg_name = ''Coding'', cfg_icon = ''Code'', duration = 25\<rparr>,
    \<lparr>cfg_id = ''verification'', cfg_name = ''In-conversation Verification'', cfg_icon = ''TrendingUp'', duration = 20\<rparr>,
    \<lparr>cfg_id = ''execution'', cfg_name = ''Execution'', cfg_icon = ''FileText'', duration = 20\<rparr>,
    \<lparr>cfg_id = ''fixing'', cfg_name = ''Code-fixing'', cfg_icon = ''Code'', duration = 10\<rparr>,
    \<lparr>cfg_id = ''optimization'', cfg_name = ''Plan Optimization'', cfg_icon = ''TrendingUp'', duration = 5\<rparr>,
    \<lparr>cfg_id = ''summarization'', cfg_name = ''Summarization'', cfg_icon = ''FileText'', duration = 5\<rparr>]"

section \<open>Text constants\<close>

text \<open>
  A Python string is modelled by its UTF-8 encoding, one \<open>char\<close> per byte.  The characters
  outside ASCII that the log lines and report templates use are named here; lines of a
  multi-line literal are joined with the newline character.
\<close>

definition EMOJI_ANTICLOCKWISE_DOWNWARDS_AND_UPWARDS_OPEN_CIRCLE_ARROWS :: string where \<comment> \<open>U+1F504\<close>
  "EMOJI_ANTICLOCKWISE_DOWNWARDS_AND_UPWARDS_OPEN_CIRCLE_ARROWS = [CHR 0xF0, CHR 0x9F, CHR 0x94, CHR 0x84]"

definition EMOJI_ARTIST_PALETTE :: string where \<comment> \<open>U+1F3A8\<close>
  "EMOJI_ARTIST_PALETTE = [CHR 0xF0, CHR 0x9F, CHR 0x8E, CHR 0xA8]"

definition EMOJI_BAR_CHART :: string where \<comment> \<open>U+1F4CA\<close>
  "EMOJI_BAR_CHART = [CHR 0xF0, CHR 0x9F, CHR 0x93, CHR 0x8A]"

definition EMOJI_BRAIN :: string where \<comment> \<open>U+1F9E0\<close>
  "EMOJI_BRAIN = [CHR 0xF0, CHR 0x9F, CHR 0xA7, CHR 0xA0]"

definition EMOJI_CHART_WITH_UPWARDS_TREND :: string where \<comment> \<open>U+1F4C8\<close>
  "EMOJI_CHART_WITH_UPWARDS_TREND = [CHR 0xF0, CHR 0x9F, CHR 0x93, CHR 0x88]"

definition EMOJI_CLIPBOARD :: string where \<comment> \<open>U+1F4CB\<close>
  "EMOJI_CLIPBOARD = [CHR 0xF0, CHR 0x9F, CHR 0x93, CHR 0x8B]"

definition EMOJI_DIRECT_HIT :: string where \<comment> \<open>U+1F3AF\<close>
  "EMOJI_DIRECT_HIT = [CHR 0xF0, CHR 0x9F, CHR 0x8E, CHR 0xAF]"

definition EMOJI_GEAR :: string where \<comment> \<open>U+2699 U+FE0F\<close>
  "EMOJI_GEAR = [CHR 0xE2, CHR 0x9A, CHR 0x99, CHR 0xEF, CHR 0xB8, CHR 0x8F]"

definition EMOJI_HAMMER_AND_WRENCH :: string where \<comment> \<open>U+1F6E0 U+FE0F\<close>
  "EMOJI_HAMMER_AND_WRENCH = [CHR 0xF0, CHR 0x9F, CHR 0x9B, CHR 0xA0, CHR 0xEF, CHR 0xB8, CHR 0x8F]"

definition EMOJI_HIGH_VOLTAGE_SIGN :: string where \<comment> \<open>U+26A1\<close>
  "EMOJI_HIGH_VOLTAGE_SIGN = [CHR 0xE2, CHR 0x9A, CHR 0xA1]"

definition EMOJI_LEFT_POINTING_MAGNIFYING_GLASS :: string where \<comment> \<open>U+1F50D\<close>
  "EMOJI_LEFT_POINTING_MAGNIFYING_GLASS = [CHR 0xF0, CHR 0x9F, CHR 0x94, CHR 0x8D]"

definition EMOJI_LINK_SYMBOL :: string where \<comment> \<open>U+1F517\<close>
  "EMOJI_LINK_SYMBOL = [CHR 0xF0, CHR 0x9F, CHR 0x94, CHR 0x97]"

definition EMOJI_MEMO :: string where \<comment> \<open>U+1F4DD\<close>
  "EMOJI_MEMO = [CHR 0xF0, CHR 0x9F, CHR 0x93, CHR 0x9D]"

definition EMOJI_OUTBOX_TRAY :: string where \<comment> \<open>U+1F4E4\<close>
  "EMOJI_OUTBOX_TRAY = [CHR 0xF0, CHR 0x9F, CHR 0x93, CHR 0xA4]"

definition EMOJI_PARTY_POPPER :: string where \<comment> \<open>U+1F389\<close>
  "EMOJI_PARTY_POPPER = [CHR 0xF0, CHR 0x9F, CHR 0x8E, CHR 0x89]"

definition EMOJI_PERSONAL_COMPUTER :: string where \<comment> \<open>U+1F4BB\<close>
  "EMOJI_PERSONAL_COMPUTER = [CHR 0xF0, CHR 0x9F, CHR 0x92, CHR 0xBB]"

definition EMOJI_ROCKET :: string where \<comment> \<open>U+1F680\<close>
  "EMOJI_ROCKET = [CHR 0xF0, CHR 0x9F, CHR 0x9A, CHR 0x80]"

definition EMOJI_SPARKLES :: string where \<comment> \<open>U+2728\<close>
  "EMOJI_SPARKLES = [CHR 0xE2, CHR 0x9C, CHR 0xA8]"

definition EMOJI_WHITE_HEAVY_CHECK_MARK :: string where \<comment> \<open>U+2705\<close>
  "EMOJI_WHITE_HEAVY_CHECK_MARK = [CHR 0xE2, CHR 0x9C, CHR 0x85]"

definition EMOJI_WRENCH :: string where \<comment> \<open>U+1F527\<close>
  "EMOJI_WRENCH = [CHR 0xF0, CHR 0x9F, CHR 0x94, CHR 0xA7]"

fun join_lines :: "string list \<Rightarrow> string" where
  "join_lines [] = []"
| "join_lines [l] = l"
| "join_lines (l # ls) = l @ CHR 0x0A # join_lines ls"

section \<open>Database service, processing rows (\<^verbatim>\<open>db_service.py\<close>)\<close>

text \<open>
  \<^verbatim>\<open>create_processing_status\<close>: one stage record per configured stage, all queued;
  \<^verbatim>\<open>session_id\<close> is unique, so a second row is refused (\<open>None\<close>).
\<close>

definition create_processing_status :: "processing_config \<Rightarrow> app_state \<Rightarrow> app_state option" where
  "create_processing_status cfg s =
     (case processing s of
        Some p \<Rightarrow> None
      | None \<Rightarrow>
         (let stages0 = map (\<lambda>stage_config.
                  \<lparr>stage_id = cfg_id stage_config, stage_name = cfg_name stage_config,
                   icon = cfg_icon stage_config, stage_status = Queued, progress = 0,
                   started_at = None, stage_completed_at = None\<rparr>) PROCESSING_STAGES
          in Some (s\<lparr>processing := Some \<lparr>p_status = ProcProcessing, current_stage = 0,
                     overall_progress = 0, stages = stages0, config = cfg,
                     p_completed_at = None, error = None\<rparr>\<rparr>)))"

definition update_processing_status ::
  "(processing_status \<Rightarrow> processing_status) \<Rightarrow> app_state \<Rightarrow> app_state" where
  "update_processing_status updates s =
     (case processing s of None \<Rightarrow> s | Some p \<Rightarrow> s\<lparr>processing := Some (updates p)\<rparr>)"

text \<open>
  Deleting the ProcessingStatus row deletes its logs with it (the relationship cascades).
\<close>

definition delete_processing_status :: "app_state \<Rightarrow> app_state" where
  "delete_processing_status s =
     (case processing s of None \<Rightarrow> s | Some p \<Rightarrow> s\<lparr>processing := None, logs := []\<rparr>)"

text \<open>\<^verbatim>\<open>add_processing_log\<close> returns \<^verbatim>\<open>None\<close> and writes nothing when the session has no
  ProcessingStatus row.\<close>

definition add_processing_log :: "string \<Rightarrow> log_type \<Rightarrow> app_state \<Rightarrow> app_state" where
  "add_processing_log msg ty s =
     (case processing s of
        None \<Rightarrow> s
      | Some p \<Rightarrow> s\<lparr>logs := logs s @ [\<lparr>log_message = msg, log_type = ty\<rparr>]\<rparr>)"

definition clear_processing_logs :: "app_state \<Rightarrow> app_state" where
  "clear_processing_logs s = s\<lparr>logs := []\<rparr>"

definition complete_ambiguity_resolution :: "nat \<Rightarrow> app_state \<Rightarrow> app_state" where
  "complete_ambiguity_resolution now s =
     (case ambiguity s of
        None \<Rightarrow> s
      | Some a \<Rightarrow> s\<lparr>ambiguity := Some (a\<lparr>a_status := AmbCompleted, completed_at := Some now\<rparr>)\<rparr>)"

text \<open>\<^verbatim>\<open>update_message_status\<close> sets the status of the first message of the given type.\<close>

fun set_first_status :: "message_type \<Rightarrow> message_status \<Rightarrow> message list \<Rightarrow> message list" where
  "set_first_status ty st [] = []"
| "set_first_status ty st (m # ms) =
     (if m_type m = ty then m\<lparr>m_status := Some st\<rparr> # ms else m # set_first_status ty st ms)"

definition update_message_status :: "message_type \<Rightarrow> message_status \<Rightarrow> app_state \<Rightarrow> app_state" where
  "update_message_status ty st s = s\<lparr>messages := set_first_status ty st (messages s)\<rparr>"

section \<open>Starting and stopping a run (\<^verbatim>\<open>resources/processing.py\<close>)\<close>

text \<open>
  The \<^verbatim>\<open>config\<close> object of a start request: each key may be absent.  \<^verbatim>\<open>processing_time\<close>
  is a JSON number.
\<close>

record start_request =
  req_processing_time :: "real option"
  req_analytics_depth :: "string option"
  req_reporting_style :: "string option"
  req_cross_validation :: "string option"

text \<open>
  \<^verbatim>\<open>ProcessingStart.post\<close> after the session and ownership checks.  The result carries the
  \<^verbatim>\<open>config\<close> of the success response.  The background thread the handler starts is
  \<open>process_analytics_with_context\<close> below.
\<close>

definition processing_start_post ::
  "(nat \<Rightarrow> nat) \<Rightarrow> start_request \<Rightarrow> app_state \<Rightarrow> http_error + (processing_config \<times> app_state)" where
  "processing_start_post clk req s =
     (let processing_time0 =
            (case req_processing_time req of None \<Rightarrow> DEFAULT_PROCESSING_TIME | Some t \<Rightarrow> t);
          depth = (case req_analytics_depth req of None \<Rightarrow> ''moderate'' | Some d \<Rightarrow> d);
          style = (case req_reporting_style req of None \<Rightarrow> ''detailed'' | Some r \<Rightarrow> r);
          validation = (case req_cross_validation req of None \<Rightarrow> ''medium'' | Some c \<Rightarrow> c);
          processing_time1 =
            (if processing_time0 < MIN_PROCESSING_TIME \<or> processing_time0 > MAX_PROCESSING_TIME
             then DEFAULT_PROCESSING_TIME else processing_time0);
          config_data = \<lparr>processing_time = processing_time1, analytics_depth = depth,
                         reporting_style = style, cross_validation = validation\<rparr>;
          s1 = (case processing s of
                  None \<Rightarrow> s
                | Some existing \<Rightarrow> clear_processing_logs (delete_processing_status s))
      in case create_processing_status config_data s1 of
           None \<Rightarrow> Inl (HttpError 500 ''Failed to start processing: IntegrityError'')
         | Some s2 \<Rightarrow>
            (let s3 = update_session
                        (\<lambda>r. r\<lparr>current_step := Processing, status := SessProcessing\<rparr>) (clk 0) s2;
                 s4 = complete_ambiguity_resolution (clk 1) s3
             in Inr (config_data, s4)))"

text \<open>
  \<^verbatim>\<open>ProcessingStop.post\<close> after the session and ownership checks.  The loop over the stages
  reads the clock once for each stage it stops: \<open>clk i\<close> for the stage at index \<open>i\<close>.
\<close>

definition stop_stage :: "(nat \<Rightarrow> nat) \<Rightarrow> nat \<times> stage \<Rightarrow> stage" where
  "stop_stage clk ist =
     (case ist of (i, st) \<Rightarrow>
        if stage_status st = StageProcessing then
          st\<lparr>stage_status := StageStopped, stage_completed_at := Some (clk i)\<rparr>
        else if stage_status st = Queued then st\<lparr>stage_status := Cancelled\<rparr>
        else st)"

definition processing_stop_post :: "(nat \<Rightarrow> nat) \<Rightarrow> app_state \<Rightarrow> http_error + app_state" where
  "processing_stop_post clk s =
     (case processing s of
        None \<Rightarrow> Inl (HttpError 404 ''No processing data found'')
      | Some processing_data \<Rightarrow>
         if p_status processing_data \<noteq> ProcProcessing
         then Inl (HttpError 400 ''Processing is not active'')
         else
           (let n = length (stages processing_data);
                stages_list = map (stop_stage clk) (enumerate 0 (stages processing_data));
                s1 = update_processing_status
                       (\<lambda>p. p\<lparr>p_status := ProcStopped, stages := stages_list\<rparr>) s;
                s2 = add_processing_log ''Processing was manually stopped by user'' Warning s1;
                s3 = update_session
                       (\<lambda>r. r\<lparr>current_step := Completed, status := SessStopped\<rparr>) (clk n) s2;
                s4 = add_message
                       \<lparr>m_type = Assistant,
                        content = ''Analysis Stopped - Processing was manually interrupted'',
                        m_status = Some MsgCompleted, current_question = None,
                        answered_questions = 0, total_questions = 0,
                        all_questions = None, expanded = False\<rparr> (clk (n + 1)) s3
            in Inr s4))"

section \<open>Report templates (\<^verbatim>\<open>resources/processing.py\<close>)\<close>

text \<open>
  The two classes \<^verbatim>\<open>ProcessingStart\<close> and \<^verbatim>\<open>ProcessingComplete\<close> each have a method
  \<^verbatim>\<open>_generate_analytics_result\<close> with its own dictionary of templates.
\<close>

definition start_finance_report :: string where
  \<open>start_finance_report = join_lines [
    ''# Financial Performance Analysis Report'',
    '''',
    ''## Executive Summary'',
    ''The analysis reveals significant growth trends across key financial metrics with notable improvements in revenue generation and cost optimization.'',
    '''',
    ''## Key Findings'',
    '''',
    ''### Revenue Performance'',
    ''- **Total Revenue**: $12.4M (+18% YoY)'',
    ''- **Quarterly Growth**: 22% increase from Q3 to Q4'',
    ''- **Regional Distribution**:'',
    ''  - North America: $6.2M (50%)'',
    ''  - Europe: $3.7M (30%)'',
    ''  - Asia-Pacific: $2.5M (20%)'',
    '''',
    ''### Cost Analysis'',
    ''- **Customer Acquisition Cost (CAC)**: $450 (-15% from previous quarter)'',
    ''- **Operating Expenses**: $8.1M (65% of revenue)'',
    ''- **EBITDA Margin**: 35% (+5 percentage points YoY)'',
    '''',
    ''### Product Category Performance'',
    ''| Category | Revenue | Growth | Market Share |'',
    ''|----------|---------|--------|-------------|'',
    ''| Enterprise | $5.8M | +25% | 47% |'',
    ''| Mid-Market | $4.1M | +15% | 33% |'',
    ''| SMB | $2.5M | +12% | 20% |'',
    '''',
    ''### Conversion Metrics'',
    ''- **Lead-to-Customer Rate**: 24% (+6% improvement)'',
    ''- **Average Deal Size**: $125K (+10% increase)'',
    ''- **Sales Cycle**: 45 days (-5 days reduction)'',
    '''',
    ''## Recommendations'',
    ''1. **Increase investment** in North American market given strong performance'',
    ''2. **Optimize CAC** further through improved targeting'',
    ''3. **Focus on Enterprise segment** for higher margins'',
    ''4. **Implement pricing optimization** for Mid-Market segment'',
    '''',
    ''## Risk Assessment'',
    ''- Currency fluctuation impact on international revenue'',
    ''- Increasing competition in SMB segment'',
    ''- Dependency on top 10 customers (35% of revenue)'',
    '''',
    ''---'',
    ''*Analysis completed using BLUE SHERPA Cognitive Engine v2.0*'']\<close>

definition start_marketing_report :: string where
  \<open>start_marketing_report = join_lines [
    ''# Marketing Campaign Performance Analysis'',
    '''',
    ''## Campaign Overview'',
    ''Multi-channel marketing analysis reveals strong digital performance with opportunities for traditional channel optimization.'',
    '''',
    ''## Performance Metrics'',
    '''',
    ''### Digital Marketing'',
    ''- **Overall ROI**: 312% (+45% vs target)'',
    ''- **Total Reach**: 2.4M unique users'',
    ''- **Engagement Rate**: 8.2% (industry avg: 5.1%)'',
    ''- **Conversion Rate**: 3.8%'',
    '''',
    ''### Channel Performance'',
    ''| Channel | Spend | Revenue | ROI | Conversions |'',
    ''|---------|-------|---------|-----|-------------|'',
    ''| Google Ads | $250K | $1.1M | 440% | 2,840 |'',
    ''| Social Media | $180K | $650K | 361% | 1,920 |'',
    ''| Email | $45K | $380K | 844% | 1,450 |'',
    ''| Content | $120K | $480K | 400% | 890 |'',
    '''',
    ''### Audience Insights'',
    ''- **Top Performing Segments**:'',
    ''  - Tech Professionals (CTR: 12.4%)'',
    ''  - Decision Makers (Conv: 6.2%)'',
    ''  - Early Adopters (LTV: $3,200)'',
    '''',
    ''### Campaign Effectiveness'',
    ''- **Brand Awareness**: +34% lift'',
    ''- **Consideration**: +28% increase'',
    ''- **Purchase Intent**: +41% improvement'',
    '''',
    ''## Recommendations'',
    ''1. **Scale email marketing** given exceptional ROI'',
    ''2. **Refine social targeting** to tech professionals'',
    ''3. **Test new creative formats** for display ads'',
    ''4. **Implement attribution modeling** for better insights'',
    '''',
    ''---'',
    ''*Powered by BLUE SHERPA Analytics Engine*'']\<close>

definition start_sales_report :: string where
  \<open>start_sales_report = join_lines [
    ''# Sales Territory Performance Analysis'',
    '''',
    ''## Territory Overview'',
    ''Comprehensive analysis of sales performance across all territories with focus on pipeline health and rep productivity.'',
    '''',
    ''## Territory Performance'',
    '''',
    ''### Regional Results'',
    ''| Territory | Revenue | Target | Achievement | Pipeline |'',
    ''|-----------|---------|--------|-------------|----------|'',
    ''| Northeast | $3.2M | $2.8M | 114% | $8.5M |'',
    ''| Southwest | $2.8M | $2.5M | 112% | $7.2M |'',
    ''| Central | $2.4M | $2.6M | 92% | $6.1M |'',
    ''| Pacific | $2.1M | $2.0M | 105% | $5.8M |'',
    '''',
    ''### Sales Rep Performance'',
    ''- **Top Performers**: 8 reps exceeding 120% of quota'',
    ''- **Average Quota Attainment**: 106%'',
    ''- **New Rep Ramp Time**: 3.2 months (improved from 4.5)'',
    '''',
    ''### Pipeline Analysis'',
    ''- **Total Pipeline Value**: $27.6M'',
    ''- **Pipeline Coverage**: 3.2x (healthy)'',
    ''- **Win Rate**: 28% (+3% QoQ)'',
    ''- **Average Deal Size**: $95K'',
    '''',
    ''### Activity Metrics'',
    ''- **Calls per Rep**: 48/day (+15%)'',
    ''- **Meetings Booked**: 12/week'',
    ''- **Proposals Sent**: 8/week'',
    ''- **Close Rate**: 24%'',
    '''',
    ''## Key Insights'',
    ''1. Northeast territory exceeding all metrics'',
    ''2. Central territory needs additional support'',
    ''3. Strong pipeline coverage indicates Q1 success'',
    ''4. Win rates improving across all segments'',
    '''',
    ''## Recommendations'',
    ''1. **Replicate Northeast** best practices'',
    ''2. **Provide coaching** for Central territory'',
    ''3. **Invest in sales enablement** tools'',
    ''4. **Implement territory rebalancing** for Q2'',
    '''',
    ''---'',
    ''*Analysis by BLUE SHERPA Sales Intelligence*'']\<close>

definition start_customer_service_report :: string where
  \<open>start_customer_service_report = join_lines [
    ''# Customer Service Quality Analysis'',
    '''',
    ''## Service Performance Overview'',
    ''Comprehensive analysis of customer service metrics revealing opportunities for response time optimization and satisfaction improvement.'',
    '''',
    ''## Key Metrics'',
    '''',
    ''### Response Performance'',
    ''- **Average Response Time**: 2.4 hours (Target: 3 hours) '' @ EMOJI_WHITE_HEAVY_CHECK_MARK,
    ''- **First Contact Resolution**: 72% (+8% improvement)'',
    ''- **Escalation Rate**: 12% (-3% reduction)'',
    ''- **SLA Compliance**: 94%'',
    '''',
    ''### Channel Analysis'',
    ''| Channel | Volume | Avg Response | CSAT | Resolution Rate |'',
    ''|---------|--------|--------------|------|----------------|'',
    ''| Phone | 8,420 | 3.2 min | 88% | 78% |'',
    ''| Email | 12,350 | 4.1 hours | 82% | 68% |'',
    ''| Chat | 15,680 | 45 seconds | 91% | 74% |'',
    ''| Social | 3,240 | 1.8 hours | 85% | 65% |'',
    '''',
    ''### Customer Satisfaction'',
    ''- **Overall CSAT**: 86% (+4% YoY)'',
    ''- **NPS Score**: 52 (Excellent)'',
    ''- **Customer Effort Score**: 3.2/5'',
    ''- **Repeat Contact Rate**: 18%'',
    '''',
    ''### Agent Performance'',
    ''- **Average Handle Time**: 6.8 minutes'',
    ''- **Tickets per Agent**: 45/day'',
    ''- **Quality Score**: 92%'',
    ''- **Training Completion**: 96%'',
    '''',
    ''## Trending Issues'',
    ''1. Password reset requests (18% of volume)'',
    ''2. Billing inquiries (15%)'',
    ''3. Feature requests (12%)'',
    ''4. Technical support (35%)'',
    '''',
    ''## Recommendations'',
    ''1. **Implement self-service** for password resets'',
    ''2. **Enhance chat bot** capabilities'',
    ''3. **Create knowledge base** for common issues'',
    ''4. **Optimize email response** workflows'',
    '''',
    ''---'',
    ''*BLUE SHERPA Service Analytics Platform*'']\<close>

definition complete_finance_report :: string where
  \<open>complete_finance_report = join_lines [
    ''# Financial Performance Analysis Report'',
    '''',
    ''## Executive Summary'',
    ''The analysis reveals significant growth trends across key financial metrics with notable improvements in revenue generation and cost optimization.'',
    '''',
    ''## Key Findings'',
    '''',
    ''### Revenue Performance'',
    ''- **Total Revenue**: $12.4M (+18% YoY)'',
    ''- **Quarterly Growth**: 22% increase from Q3 to Q4'',
    ''- **Regional Distribution**:'',
    ''  - North America: $6.2M (50%)'',
    ''  - Europe: $3.7M (30%)'',
    ''  - Asia-Pacific: $2.5M (20%)'',
    '''',
    ''### Cost Analysis'',
    ''- **Customer Acquisition Cost (CAC)**: $450 (-15% from previous quarter)'',
    ''- **Operating Expenses**: $8.1M (65% of revenue)'',
    ''- **EBITDA Margin**: 35% (+5 percentage points YoY)'',
    '''',
    ''### Product Category Performance'',
    ''| Category | Revenue | Growth | Market Share |'',
    ''|----------|---------|--------|-------------|'',
    ''| Enterprise | $5.8M | +25% | 47% |'',
    ''| Mid-Market | $4.1M | +15% | 33% |'',
    ''| SMB | $2.5M | +12% | 20% |'',
    '''',
    ''### Conversion Metrics'',
    ''- **Lead-to-Customer Rate**: 24% (+6% improvement)'',
    ''- **Average Deal Size**: $125K (+10% increase)'',
    ''- **Sales Cycle**: 45 days (-5 days reduction)'',
    '''',
    ''## Recommendations'',
    ''1. **Increase investment** in North American market given strong performance'',
    ''2. **Optimize CAC** further through improved targeting'',
    ''3. **Focus on Enterprise segment** for higher margins'',
    ''4. **Implement pricing optimization** for Mid-Market segment'',
    '''',
    ''## Risk Assessment'',
    ''- Currency fluctuation impact on international revenue'',
    ''- Increasing competition in SMB segment'',
    ''- Dependency on top 10 customers (35% of revenue)'',
    '''',
    ''*Generated by BLUE SHERPA Analytics Engine*'']\<close>

definition complete_marketing_report :: string where
  \<open>complete_marketing_report = join_lines [
    ''# Marketing Performance Analysis Report'',
    '''',
    ''## Executive Summary'',
    ''Comprehensive analysis of marketing effectiveness reveals strong digital performance with opportunities for channel optimization.'',
    '''',
    ''## Key Metrics'',
    '''',
    ''### Campaign Performance'',
    ''- **Total Campaigns**: 45 active campaigns'',
    ''- **Average CTR**: 3.2% (+0.8% improvement)'',
    ''- **Conversion Rate**: 12.5% (+2.1% YoY)'',
    ''- **Cost Per Lead**: $35 (-12% optimization)'',
    '''',
    ''### Channel Analysis'',
    ''- **Digital Channels**: 68% of total leads'',
    ''- **Organic Search**: 34% of conversions'',
    ''- **Paid Social**: 22% of conversions'',
    ''- **Email Marketing**: 18% ROI'',
    '''',
    ''### Audience Insights'',
    ''- **Primary Demographics**: 25-45 age group (62%)'',
    ''- **Geographic Focus**: Urban markets (78%)'',
    ''- **Engagement Rate**: 15.3% across channels'',
    '''',
    ''## Strategic Recommendations'',
    ''1. **Expand organic search** investment'',
    ''2. **Optimize social media** targeting'',
    ''3. **Enhance email** personalization'',
    ''4. **Develop mobile-first** strategies'',
    '''',
    ''*Generated by BLUE SHERPA Analytics Engine*'']\<close>

definition complete_operations_report :: string where
  \<open>complete_operations_report = join_lines [
    ''# Operational Efficiency Analysis Report'',
    '''',
    ''## Executive Summary'',
    ''Analysis reveals strong operational performance with identified optimization opportunities in process efficiency and resource allocation.'',
    '''',
    ''## Performance Metrics'',
    '''',
    ''### Efficiency Indicators'',
    ''- **Overall Equipment Effectiveness**: 84% (+6% improvement)'',
    ''- **Process Cycle Time**: 2.3 hours (-15% reduction)'',
    ''- **Quality Rate**: 98.7% (+1.2% improvement)'',
    ''- **Resource Utilization**: 89% (+4% optimization)'',
    '''',
    ''### Cost Analysis'',
    ''- **Operational Costs**: $5.2M (-8% YoY)'',
    ''- **Productivity Index**: 125 (+12 points)'',
    ''- **Waste Reduction**: 23% decrease'',
    '''',
    ''### Process Optimization'',
    ''- **Automation Level**: 67% of processes'',
    ''- **Digital Transformation**: 78% completion'',
    ''- **Staff Efficiency**: +19% productivity gain'',
    '''',
    ''## Strategic Initiatives'',
    ''1. **Implement advanced automation** for remaining manual processes'',
    ''2. **Optimize supply chain** logistics'',
    ''3. **Enhance workforce** training programs'',
    ''4. **Deploy predictive maintenance** systems'',
    '''',
    ''*Generated by BLUE SHERPA Analytics Engine*'']\<close>


definition start_generate_analytics_result :: "string \<Rightarrow> string" where
  "start_generate_analytics_result dname =
     (case map_of [(''Finance'', start_finance_report), (''Marketing'', start_marketing_report),
                   (''Sales'', start_sales_report),
                   (''Customer Service'', start_customer_service_report)] dname of
        Some r \<Rightarrow> r
      | None \<Rightarrow> start_finance_report)"

definition complete_generate_analytics_result :: "string \<Rightarrow> string" where
  "complete_generate_analytics_result dname =
     (case map_of [(''Finance'', complete_finance_report),
                   (''Marketing'', complete_marketing_report),
                   (''Operations'', complete_operations_report)] dname of
        Some r \<Rightarrow> r
      | None \<Rightarrow> complete_finance_report)"

section \<open>Force-complete (\<^verbatim>\<open>ProcessingComplete\<close>)\<close>

definition dummy_logs :: "string list" where
  \<open>dummy_logs = [
    EMOJI_ROCKET @ '' Initializing BLUE SHERPA cognitive processing pipeline'',
    EMOJI_BRAIN @ '' Loading analytical models and domain expertise'',
    EMOJI_LEFT_POINTING_MAGNIFYING_GLASS @ '' Loading domain-specific knowledge base'',
    EMOJI_BAR_CHART @ '' Parsing user query and extracting key entities'',
    EMOJI_DIRECT_HIT @ '' Generating analytical strategy framework'',
    EMOJI_WHITE_HEAVY_CHECK_MARK @ '' Planning phase complete - strategy defined'',
    EMOJI_PERSONAL_COMPUTER @ '' Generating data analysis scripts'',
    EMOJI_HIGH_VOLTAGE_SIGN @ '' Optimizing query structures for performance'',
    EMOJI_WRENCH @ '' Validating code syntax and logic'',
    EMOJI_WHITE_HEAVY_CHECK_MARK @ '' Code generation complete - algorithms ready'',
    EMOJI_LINK_SYMBOL @ '' Cross-referencing user context with generated code'',
    EMOJI_CLIPBOARD @ '' Validating analytical approach against requirements'',
    EMOJI_DIRECT_HIT @ '' Performing contextual accuracy checks'',
    EMOJI_WHITE_HEAVY_CHECK_MARK @ '' Verification complete - context aligned'',
    EMOJI_ROCKET @ '' Executing analytical algorithms'',
    EMOJI_GEAR @ '' Processing data with applied filters and constraints'',
    EMOJI_CHART_WITH_UPWARDS_TREND @ '' Calculating statistical measures and metrics'',
    EMOJI_WHITE_HEAVY_CHECK_MARK @ '' Execution complete - results generated'',
    EMOJI_LEFT_POINTING_MAGNIFYING_GLASS @ '' Reviewing code execution results'',
    EMOJI_HAMMER_AND_WRENCH @ '' Applying optimization corrections'',
    EMOJI_SPARKLES @ '' Finalizing computational accuracy'',
    EMOJI_WHITE_HEAVY_CHECK_MARK @ '' Code refinement complete - optimized'',
    EMOJI_BAR_CHART @ '' Cross-referencing results with historical patterns'',
    EMOJI_DIRECT_HIT @ '' Optimizing analytical insights delivery'',
    EMOJI_CLIPBOARD @ '' Preparing result synthesis'',
    EMOJI_WHITE_HEAVY_CHECK_MARK @ '' Optimization complete - insights enhanced'',
    EMOJI_MEMO @ '' Generating insights and recommendations'',
    EMOJI_ARTIST_PALETTE @ '' Formatting results for presentation'',
    EMOJI_BAR_CHART @ '' Finalizing analytical report structure'',
    EMOJI_WHITE_HEAVY_CHECK_MARK @ '' Summarization complete - report ready'',
    EMOJI_SPARKLES @ '' All processing stages completed successfully'',
    EMOJI_PARTY_POPPER @ '' BLUE SHERPA analytics processing complete - results ready'',
    EMOJI_OUTBOX_TRAY @ '' Preparing final analysis report...'']\<close>

definition populate_dummy_logs :: "app_state \<Rightarrow> app_state" where
  "populate_dummy_logs s =
     fold (\<lambda>log_message. add_processing_log log_message Info) dummy_logs
       (clear_processing_logs s)"

definition report_message :: "string \<Rightarrow> message" where
  "report_message analytics_result =
     \<lparr>m_type = Assistant, content = analytics_result, m_status = Some MsgCompleted,
      current_question = None, answered_questions = 0, total_questions = 0,
      all_questions = None, expanded = False\<rparr>"

text \<open>
  \<^verbatim>\<open>ProcessingComplete.post\<close> after the session and ownership checks; \<^verbatim>\<open>session_dict\<close> is
  the session row read at the start of the request.
\<close>

definition processing_complete_post :: "(nat \<Rightarrow> nat) \<Rightarrow> app_state \<Rightarrow> http_error + app_state" where
  "processing_complete_post clk s =
     (let session_dict = session s;
          s1 = populate_dummy_logs s;
          s2 = update_processing_status
                 (\<lambda>p. p\<lparr>p_status := ProcCompleted, overall_progress := 100,
                        p_completed_at := Some (clk 0)\<rparr>) s1;
          s3 = update_session
                 (\<lambda>r. r\<lparr>current_step := Completed, status := SessCompleted\<rparr>) (clk 1) s2;
          analytics_result = complete_generate_analytics_result (domain session_dict);
          s4 = add_message (report_message analytics_result) (clk 2) s3;
          s5 = update_message_status AmbiguityMessage MsgCompleted s4
      in Inr s5)"

section \<open>Results (\<^verbatim>\<open>resources/analytics.py\<close>)\<close>

text \<open>
  \<^verbatim>\<open>_get_verification_status\<close> is \<^verbatim>\<open>random.choices(statuses, weights=weights)[0]\<close>: with
  the uniform draw \<open>u\<close> from \<open>[0, 1)\<close> it picks the first status whose cumulative weight
  exceeds \<open>u\<close>.
\<close>

definition verification_statuses :: "string list" where
  "verification_statuses = [''verified'', ''partial'', ''failed'']"

definition get_verification_status :: "real \<Rightarrow> string" where
  "get_verification_status u =
     (if u < 7 / 10 then verification_statuses ! 0
      else if u < 7 / 10 + 2 / 10 then verification_statuses ! 1
      else verification_statuses ! 2)"

text \<open>
  \<^verbatim>\<open>AnalyticsResults.get\<close> after the session and ownership checks.  The markdown of
  \<^verbatim>\<open>results\<close> is composed by \<^verbatim>\<open>_generate_analytics_results\<close> from the session row and the
  stored configuration; that composition is the argument \<open>generate\<close>.  The value of
  \<^verbatim>\<open>verification_status\<close> is the string literal the source has in that place.
\<close>

record 'r results_response =
  results :: 'r
  generated_at :: nat
  verification_status :: string

definition analytics_results_get ::
  "(session_row \<Rightarrow> processing_config option \<Rightarrow> 'r) \<Rightarrow> nat \<Rightarrow> app_state
     \<Rightarrow> http_error + 'r results_response" where
  "analytics_results_get generate now s =
     (if current_step (session s) \<noteq> Completed
      then Inl (HttpError 400 ''Analysis not completed yet'')
      else Inr \<lparr>results = generate (session s) (map_option config (processing s)),
                generated_at = now,
                verification_status = ''self._get_verification_status()''\<rparr>)"

section \<open>The background simulator (\<^verbatim>\<open>ProcessingStart._process_analytics\<close>)\<close>

text \<open>
  The thread runs beside the request handlers.  What they see of it is the sequence of
  states it commits.  What it sees of them is modelled at the stop checks only: a
  \<open>world\<close> is the database as the thread sees it, the states committed earlier (the latest
  first), and \<open>polls\<close>, the number of stop checks that still find the run not stopped by
  a concurrent stop request: with \<open>polls = n\<close> the \<open>n+1\<close>-st check observes \<^verbatim>\<open>stopped\<close>.
  Between the checks no other writer changes the rows of the session.  \<^verbatim>\<open>time.sleep\<close>
  changes no state and is left out, and with it the stage and step durations, which only
  feed it.

  A step of the thread ends normally with a value, with an early \<^verbatim>\<open>return\<close> from the
  function, or with an exception of the given text.
\<close>

datatype 'a outcome = Normal 'a | Returned | Raised string

record world =
  db :: app_state
  past :: "app_state list"
  polls :: nat

definition commit :: "(app_state \<Rightarrow> app_state) \<Rightarrow> world \<Rightarrow> world" where
  "commit f w = w\<lparr>db := f (db w), past := db w # past w\<rparr>"

text \<open>The clock of the thread: its reading after the given number of commits.\<close>

definition utcnow :: "(nat \<Rightarrow> nat) \<Rightarrow> world \<Rightarrow> nat" where
  "utcnow clk w = clk (length (past w))"

text \<open>
  \<^verbatim>\<open>if not current_status or current_status.status == 'stopped': return\<close>
\<close>

definition stop_observed :: "world \<Rightarrow> bool" where
  "stop_observed w =
     (polls w = 0 \<or>
      (case processing (db w) of
         None \<Rightarrow> True
       | Some current_status \<Rightarrow> p_status current_status = ProcStopped))"

definition polled :: "world \<Rightarrow> world" where
  "polled w = w\<lparr>polls := polls w - 1\<rparr>"

text \<open>
  Python floats are IEEE doubles: each arithmetic operation returns the rounding of the
  exact result.  The rounding is the argument \<open>fl\<close> of the simulator; the theorems ask of
  it what holds of rounding to nearest: it is monotone and leaves the natural numbers up
  to 100 as they are.
\<close>

definition STEPS :: nat where "STEPS = 10"

definition step_progress :: "(real \<Rightarrow> real) \<Rightarrow> nat \<Rightarrow> real" where
  \<comment> \<open>\<^verbatim>\<open>(step / steps) * 100\<close>\<close>
  "step_progress fl step = fl (fl (real step / real STEPS) * 100)"

definition completed_weight :: "stage list \<Rightarrow> nat \<Rightarrow> nat" where
  \<comment> \<open>\<^verbatim>\<open>sum(stages[i]['duration'] for i in range(stage_index) if stages_list[i]['status'] == 'completed')\<close>\<close>
  "completed_weight stages_list stage_index =
     sum_list (map (\<lambda>i. duration (PROCESSING_STAGES ! i))
       (filter (\<lambda>i. stage_status (stages_list ! i) = StageCompleted) [0..<stage_index]))"

definition total_weight :: nat where
  "total_weight = sum_list (map duration PROCESSING_STAGES)"

definition overall_of :: "(real \<Rightarrow> real) \<Rightarrow> nat \<Rightarrow> real \<Rightarrow> nat \<Rightarrow> real" where
  \<comment> \<open>\<^verbatim>\<open>((completed_weight + (progress / 100) * duration) / total_weight) * 100\<close>\<close>
  "overall_of fl cw prog dur =
     (let current_stage_contribution = fl (fl (prog / 100) * real dur)
      in fl (fl (fl (real cw + current_stage_contribution) / real total_weight) * 100))"

text \<open>\<^verbatim>\<open>int(progress)\<close> truncates towards zero; \<^verbatim>\<open>str\<close> of an integer is its decimal numeral.\<close>

definition py_int :: "real \<Rightarrow> int" where
  "py_int x = (if 0 \<le> x then \<lfloor>x\<rfloor> else \<lceil>x\<rceil>)"

fun str_nat :: "nat \<Rightarrow> string" where
  "str_nat n =
     (if n < 10 then [char_of (48 + n)] else str_nat (n div 10) @ [char_of (48 + n mod 10)])"

definition str_int :: "int \<Rightarrow> string" where
  "str_int i = (if i < 0 then CHR ''-'' # str_nat (nat (- i)) else str_nat (nat i))"

text \<open>\<^verbatim>\<open>str.lower()\<close> on the letters of ASCII.\<close>

definition lower :: "string \<Rightarrow> string" where
  "lower s =
     map (\<lambda>c. if (65::nat) \<le> of_char c \<and> of_char c \<le> (90::nat)
              then char_of (of_char c + (32::nat)) else c) s"

definition stage_logs :: "(string \<times> string list) list" where
  \<open>stage_logs = [
    (''Planning'', [
      EMOJI_LEFT_POINTING_MAGNIFYING_GLASS @ '' Loading domain-specific knowledge base'',
      EMOJI_BAR_CHART @ '' Parsing user query and extracting key entities'',
      EMOJI_DIRECT_HIT @ '' Generating analytical strategy framework'',
      EMOJI_WHITE_HEAVY_CHECK_MARK @ '' Planning phase complete - strategy defined'']),
    (''Coding'', [
      EMOJI_PERSONAL_COMPUTER @ '' Generating data analysis scripts'',
      EMOJI_HIGH_VOLTAGE_SIGN @ '' Optimizing query structures for performance'',
      EMOJI_WRENCH @ '' Validating code syntax and logic'',
      EMOJI_WHITE_HEAVY_CHECK_MARK @ '' Code generation complete - algorithms ready'']),
    (''In-conversation Verification'', [
      EMOJI_LINK_SYMBOL @ '' Cross-referencing user context with generated code'',
      EMOJI_CLIPBOARD @ '' Validating analytical approach against requirements'',
      EMOJI_DIRECT_HIT @ '' Performing contextual accuracy checks'',
      EMOJI_WHITE_HEAVY_CHECK_MARK @ '' Verification complete - context aligned'']),
    (''Execution'', [
      EMOJI_ROCKET @ '' Executing analytical algorithms'',
      EMOJI_GEAR @ '' Processing data with applied filters and constraints'',
      EMOJI_CHART_WITH_UPWARDS_TREND @ '' Calculating statistical measures and metrics'',
      EMOJI_WHITE_HEAVY_CHECK_MARK @ '' Execution complete - results generated'']),
    (''Code-fixing'', [
      EMOJI_LEFT_POINTING_MAGNIFYING_GLASS @ '' Reviewing code execution results'',
      EMOJI_HAMMER_AND_WRENCH @ '' Applying optimization corrections'',
      EMOJI_SPARKLES @ '' Finalizing computational accuracy'',
      EMOJI_WHITE_HEAVY_CHECK_MARK @ '' Code refinement complete - optimized'']),
    (''Plan Optimization'', [
      EMOJI_BAR_CHART @ '' Cross-referencing results with historical patterns'',
      EMOJI_DIRECT_HIT @ '' Optimizing analytical insights delivery'',
      EMOJI_CLIPBOARD @ '' Preparing result synthesis'',
      EMOJI_WHITE_HEAVY_CHECK_MARK @ '' Optimization complete - insights enhanced'']),
    (''Summarization'', [
      EMOJI_MEMO @ '' Generating insights and recommendations'',
      EMOJI_ARTIST_PALETTE @ '' Formatting results for presentation'',
      EMOJI_BAR_CHART @ '' Finalizing analytical report structure'',
      EMOJI_WHITE_HEAVY_CHECK_MARK @ '' Summarization complete - report ready''])]\<close>

definition get_stage_logs :: "string \<Rightarrow> string list" where
  "get_stage_logs name =
     (case map_of stage_logs name of
        Some ls \<Rightarrow> ls
      | None \<Rightarrow> [EMOJI_ANTICLOCKWISE_DOWNWARDS_AND_UPWARDS_OPEN_CIRCLE_ARROWS @ '' Processing '' @ lower name])"

text \<open>The progress line \<^verbatim>\<open>f"... {stage_config['name']} - {progress_percent}% completed"\<close>.\<close>

definition progress_log :: "string \<Rightarrow> int \<Rightarrow> string" where
  "progress_log name progress_percent =
     EMOJI_BAR_CHART @ '' '' @ name @ '' - '' @ str_int progress_percent @ ''% completed''"

text \<open>
  The inner loop \<^verbatim>\<open>for step in range(steps + 1)\<close>, given the steps still to run and the
  local list \<^verbatim>\<open>stages_list\<close>; it returns the list as the loop leaves it.
\<close>

fun progress_steps ::
  "(real \<Rightarrow> real) \<Rightarrow> nat \<Rightarrow> stage_config \<Rightarrow> nat list \<Rightarrow> stage list \<Rightarrow> world
     \<Rightarrow> stage list outcome \<times> world" where
  "progress_steps fl stage_index stage_config [] stages_list w = (Normal stages_list, w)"
| "progress_steps fl stage_index stage_config (step # rest) stages_list w =
     (if stop_observed w then (Returned, w)
      else
        (let w0 = polled w;
             prog = step_progress fl step;
             stages_list1 = stages_list
               [stage_index := (stages_list ! stage_index)\<lparr>progress := prog\<rparr>];
             overall = overall_of fl (completed_weight stages_list1 stage_index) prog
                         (duration stage_config);
             w1 = commit (update_processing_status
                    (\<lambda>p. p\<lparr>stages := stages_list1,
                           overall_progress := min overall 100\<rparr>)) w0;
             w2 = (if step > 0 \<and> step mod (STEPS div 4) = 0 \<and> step < STEPS
                   then commit (add_processing_log
                          (progress_log (cfg_name stage_config) (py_int prog)) Info) w1
                   else w1)
         in progress_steps fl stage_index stage_config rest stages_list1 w2))"

text \<open>The loop over the flavour lines of a stage, with a stop check before each.\<close>

fun emit_stage_logs :: "string list \<Rightarrow> world \<Rightarrow> unit outcome \<times> world" where
  "emit_stage_logs [] w = (Normal (), w)"
| "emit_stage_logs (log_msg # rest) w =
     (if stop_observed w then (Returned, w)
      else emit_stage_logs rest (commit (add_processing_log log_msg Info) (polled w)))"

text \<open>
  One round of the outer loop.  \<^verbatim>\<open>processing_data.get_stages()\<close> reads the persisted
  stages; \<^verbatim>\<open>stages_list[stage_index]\<close> raises IndexError when the persisted list is
  shorter than the configured one.  The row was there before the loop and the thread
  never deletes it.
\<close>

definition process_stage ::
  "(real \<Rightarrow> real) \<Rightarrow> (nat \<Rightarrow> nat) \<Rightarrow> nat \<Rightarrow> stage_config \<Rightarrow> world \<Rightarrow> unit outcome \<times> world" where
  "process_stage fl clk stage_index stage_config w =
     (case processing (db w) of
        None \<Rightarrow> (Raised ''ObjectDeletedError'', w)
      | Some processing_data \<Rightarrow>
         (let stages_list = stages processing_data
          in if length stages_list \<le> stage_index
             then (Raised ''list index out of range'', w)
             else
               (let stages_list1 = stages_list
                      [stage_index := (stages_list ! stage_index)
                         \<lparr>stage_status := StageProcessing, started_at := Some (utcnow clk w),
                          progress := 0\<rparr>];
                    w1 = commit (update_processing_status
                           (\<lambda>p. p\<lparr>stages := stages_list1, current_stage := stage_index\<rparr>)) w;
                    w2 = commit (add_processing_log
                           (''Starting '' @ cfg_name stage_config @ ''...'') Info) w1
                in case progress_steps fl stage_index stage_config [0..<STEPS + 1]
                          stages_list1 w2 of
                     (Returned, w3) \<Rightarrow> (Returned, w3)
                   | (Raised e, w3) \<Rightarrow> (Raised e, w3)
                   | (Normal stages_list2, w3) \<Rightarrow>
                      (let stages_list3 = stages_list2
                             [stage_index := (stages_list2 ! stage_index)
                                \<lparr>stage_status := StageCompleted, progress := 100,
                                 stage_completed_at := Some (utcnow clk w3)\<rparr>];
                           w4 = commit (update_processing_status
                                  (\<lambda>p. p\<lparr>stages := stages_list3\<rparr>)) w3;
                           w5 = commit (add_processing_log
                                  (cfg_name stage_config @ '' completed successfully'')
                                  Success) w4
                       in emit_stage_logs (get_stage_logs (cfg_name stage_config)) w5))))"

text \<open>\<^verbatim>\<open>for stage_index, stage_config in enumerate(stages)\<close>\<close>

fun process_stages ::
  "(real \<Rightarrow> real) \<Rightarrow> (nat \<Rightarrow> nat) \<Rightarrow> (nat \<times> stage_config) list \<Rightarrow> world
     \<Rightarrow> unit outcome \<times> world" where
  "process_stages fl clk [] w = (Normal (), w)"
| "process_stages fl clk ((stage_index, stage_config) # rest) w =
     (case process_stage fl clk stage_index stage_config w of
        (Normal u, w') \<Rightarrow> process_stages fl clk rest w'
      | (Returned, w') \<Rightarrow> (Returned, w')
      | (Raised e, w') \<Rightarrow> (Raised e, w'))"

text \<open>What follows the loop when every stage has completed.\<close>

definition finish_processing :: "(nat \<Rightarrow> nat) \<Rightarrow> world \<Rightarrow> world" where
  "finish_processing clk w =
     (let w1 = commit (update_processing_status
                 (\<lambda>p. p\<lparr>p_status := ProcCompleted, overall_progress := 100,
                        p_completed_at := Some (utcnow clk w)\<rparr>)) w;
          w2 = commit (add_processing_log
                 (EMOJI_SPARKLES @ '' All processing stages completed successfully'') Success) w1;
          w3 = commit (add_processing_log
                 (EMOJI_PARTY_POPPER @ '' BLUE SHERPA analytics processing complete - results ready'') Success) w2;
          w4 = commit (add_processing_log
                 (EMOJI_OUTBOX_TRAY @ '' Preparing final analysis report...'') Info) w3;
          w5 = commit (update_session
                 (\<lambda>r. r\<lparr>current_step := Completed, status := SessCompleted\<rparr>) (utcnow clk w4)) w4;
          analytics_result = start_generate_analytics_result (domain (session (db w5)));
          w6 = commit (add_message (report_message analytics_result) (utcnow clk w5)) w5;
          w7 = commit (update_message_status AmbiguityMessage MsgCompleted) w6
      in w7)"

text \<open>The body of the \<^verbatim>\<open>try\<close> of \<^verbatim>\<open>_process_analytics\<close>.\<close>

definition process_analytics_body ::
  "(real \<Rightarrow> real) \<Rightarrow> (nat \<Rightarrow> nat) \<Rightarrow> world \<Rightarrow> unit outcome \<times> world" where
  "process_analytics_body fl clk w =
     (let w1 = commit (add_processing_log
                 (EMOJI_ROCKET @ '' Initializing BLUE SHERPA cognitive processing pipeline'') Info) w;
          w2 = commit (add_processing_log
                 (EMOJI_BRAIN @ '' Loading analytical models and domain expertise'') Info) w1
      in case processing (db w2) of
           None \<Rightarrow> (Returned, w2)
         | Some processing_data \<Rightarrow>
            (case process_stages fl clk (enumerate 0 PROCESSING_STAGES) w2 of
               (Normal u, w3) \<Rightarrow> (Normal (), finish_processing clk w3)
             | (Returned, w3) \<Rightarrow> (Returned, w3)
             | (Raised e, w3) \<Rightarrow> (Raised e, w3)))"

text \<open>
  \<^verbatim>\<open>except Exception as e\<close>: the handler of \<^verbatim>\<open>_process_analytics\<close> writes an error log and
  marks the row failed.  It does not touch the session.
\<close>

definition process_analytics_failed :: "string \<Rightarrow> world \<Rightarrow> world" where
  "process_analytics_failed e w =
     (let w1 = commit (add_processing_log (''Processing error: '' @ e) Error) w;
          w2 = commit (update_processing_status
                 (\<lambda>p. p\<lparr>p_status := ProcFailed, error := Some e\<rparr>)) w1
      in w2)"

text \<open>
  \<^verbatim>\<open>try: body except Exception as e: handler\<close>, for any body.  The first component of the
  result is the exception that leaves the function, if any.
\<close>

definition try_except ::
  "(world \<Rightarrow> unit outcome \<times> world) \<Rightarrow> (string \<Rightarrow> world \<Rightarrow> world) \<Rightarrow> world
     \<Rightarrow> string option \<times> world" where
  "try_except body handler w =
     (case body w of
        (Normal u, w') \<Rightarrow> (None, w')
      | (Returned, w') \<Rightarrow> (None, w')
      | (Raised e, w') \<Rightarrow> (None, handler e w'))"

definition process_analytics ::
  "(real \<Rightarrow> real) \<Rightarrow> (nat \<Rightarrow> nat) \<Rightarrow> world \<Rightarrow> string option \<times> world" where
  "process_analytics fl clk w =
     try_except (process_analytics_body fl clk) process_analytics_failed w"

text \<open>
  \<^verbatim>\<open>_process_analytics_with_context\<close>, the target of the thread: an exception that leaves
  \<^verbatim>\<open>_process_analytics\<close> would be recorded as a failed status here.
\<close>

definition process_analytics_with_context ::
  "(real \<Rightarrow> real) \<Rightarrow> (nat \<Rightarrow> nat) \<Rightarrow> world \<Rightarrow> world" where
  "process_analytics_with_context fl clk w =
     (case process_analytics fl clk w of
        (None, w') \<Rightarrow> w'
      | (Some e, w') \<Rightarrow>
          commit (update_processing_status
            (\<lambda>p. p\<lparr>p_status := ProcFailed, error := Some e\<rparr>)) w')"

text \<open>
  The thread starts on the state the start request has committed.  (The handler starts
  the thread before its last two writes, to the session row and the AmbiguityData; the
  thread sleeps first and reads neither before its end.)
\<close>

definition thread_start :: "nat \<Rightarrow> app_state \<Rightarrow> world" where
  "thread_start n s = \<lparr>db = s, past = [], polls = n\<rparr>"

text \<open>The state the thread started on and the states it has committed, in that order.\<close>

definition history :: "world \<Rightarrow> app_state list" where
  "history w = rev (db w # past w)"

section \<open>Observations and example inputs\<close>

text \<open>What a caller can read off the result of a handler.\<close>

definition result_state :: "'e + 'a \<Rightarrow> 'a option" where
  "result_state r = (case r of Inl e \<Rightarrow> None | Inr s \<Rightarrow> Some s)"

definition question_count :: "app_state \<Rightarrow> nat option" where
  "question_count s = map_option (\<lambda>a. length (questions a)) (ambiguity s)"

definition answer_count :: "app_state \<Rightarrow> nat option" where
  "answer_count s = map_option (\<lambda>a. length (answers a)) (ambiguity s)"

definition started_config ::
  "http_error + (processing_config \<times> app_state) \<Rightarrow> processing_config option" where
  "started_config r = (case r of Inl e \<Rightarrow> None | Inr (cfg, s) \<Rightarrow> Some cfg)"

definition started_state ::
  "http_error + (processing_config \<times> app_state) \<Rightarrow> app_state option" where
  "started_state r = (case r of Inl e \<Rightarrow> None | Inr (cfg, s) \<Rightarrow> Some s)"

text \<open>
  The fields that the answer handlers persist, apart from timestamps: the AmbiguityData
  columns, the session's step and the messages.
\<close>

definition answering_outcome ::
  "app_state \<Rightarrow> (string list \<times> string list \<times> nat \<times> ambiguity_status) option \<times> step \<times> message list" where
  "answering_outcome s =
     (map_option (\<lambda>a. (questions a, answers a, current_question_index a, a_status a))
        (ambiguity s),
      current_step (session s), messages s)"

text \<open>
  A session of the Finance domain, as the scenario of the specification walks it: created,
  first message sent, both questions answered in one batch, processing started.  The clock
  of the examples counts its own readings.
\<close>

definition example_clock :: "nat \<Rightarrow> nat" where
  "example_clock k = k"

definition example_clocks :: "nat \<Rightarrow> nat \<Rightarrow> nat" where
  "example_clocks call k = 10 * call + k"

definition finance_new :: app_state where
  "finance_new = create_session ''Finance'' 0"

definition finance_asked :: app_state where
  "finance_asked =
     (case messages_create_post example_clock ''How did we do this quarter?'' finance_new of
        Inl (e, s) \<Rightarrow> s | Inr s \<Rightarrow> s)"

definition finance_answers :: "string list" where
  "finance_answers = [''geographic regions'', ''CAC and LTV'']"

definition finance_answered :: app_state where
  "finance_answered =
     (case handle_batch_answers example_clock finance_answers finance_asked of
        Inl e \<Rightarrow> finance_asked | Inr s \<Rightarrow> s)"

definition default_request :: start_request where
  "default_request = \<lparr>req_processing_time = None, req_analytics_depth = None,
                       req_reporting_style = None, req_cross_validation = None\<rparr>"

definition finance_started :: app_state where
  "finance_started =
     (case processing_start_post example_clock default_request finance_answered of
        Inl e \<Rightarrow> finance_answered | Inr (cfg, s) \<Rightarrow> s)"

text \<open>
  The started Finance session in the middle of a run: the first stage completed, the
  second in progress, the others queued.
\<close>

definition finance_mid_run :: app_state where
  "finance_mid_run =
     update_processing_status
       (\<lambda>p. p\<lparr>current_stage := 1, overall_progress := 25,
              stages := (stages p)
                [0 := (stages p ! 0)\<lparr>stage_status := StageCompleted, progress := 100,
                        started_at := Some 3, stage_completed_at := Some 4\<rparr>,
                 1 := (stages p ! 1)\<lparr>stage_status := StageProcessing, progress := 40,
                        started_at := Some 5\<rparr>]\<rparr>) finance_started"

text \<open>The started Finance session after the force-complete request.\<close>

definition finance_completed :: app_state where
  "finance_completed =
     (case processing_complete_post example_clock finance_started of
        Inl e \<Rightarrow> finance_started | Inr s \<Rightarrow> s)"

text \<open>Start requests: one with a duration below the minimum, one with an unknown depth.\<close>

definition short_request :: start_request where
  "short_request = default_request\<lparr>req_processing_time := Some 1\<rparr>"

definition bogus_depth_request :: start_request where
  "bogus_depth_request = default_request\<lparr>req_analytics_depth := Some ''bogus''\<rparr>"

text \<open>The content of the last message of a session.\<close>

definition last_content :: "app_state \<Rightarrow> string option" where
  "last_content s = (case rev (messages s) of [] \<Rightarrow> None | m # earlier \<Rightarrow> Some (content m))"




section \<open>Auxiliary definitions for the proofs about ``continue resolving''\<close>

definition initial_count_of :: "app_state \<Rightarrow> nat" where
  "initial_count_of s =
     length (case map_of DOMAIN_AMBIGUITY_QUESTIONS (domain (session s)) of
               None \<Rightarrow> [] | Some qs \<Rightarrow> qs)"

definition extend_questions :: "nat \<Rightarrow> string list \<Rightarrow> string list" where
  "extend_questions initial_count qs =
     (if length (list_dict_fromkeys qs) \<le> initial_count
      then list_dict_fromkeys qs @
           filter (\<lambda>q. q \<notin> set (list_dict_fromkeys qs)) ADDITIONAL_QUESTIONS
      else list_dict_fromkeys qs)"

definition cleaned_index :: "ambiguity_data \<Rightarrow> nat" where
  "cleaned_index a =
     (if length (list_dict_fromkeys (questions a)) \<noteq> length (questions a)
      then min (length (answers a)) (length (list_dict_fromkeys (questions a)) - 1)
      else current_question_index a)"

definition continued_data :: "nat \<Rightarrow> ambiguity_data \<Rightarrow> ambiguity_data" where
  "continued_data n a =
     a\<lparr>questions := extend_questions n (questions a),
       current_question_index := cleaned_index a, a_status := AmbActive\<rparr>"

definition continued_prompt :: "ambiguity_data \<Rightarrow> string" where
  "continued_prompt a =
     (if length (answers a) < length (questions a) then questions a ! length (answers a)
      else ''What additional analysis details would you like to specify?'')"

definition continued :: "nat \<Rightarrow> app_state \<Rightarrow> ambiguity_data \<Rightarrow> app_state" where
  "continued now s a' =
     s\<lparr>ambiguity := Some a',
       session := (session s)\<lparr>current_step := Ambiguity, updated_at := now\<rparr>,
       messages := update_first_ambiguity
         (\<lambda>m. m\<lparr>current_question := Some (continued_prompt a'),
                answered_questions := length (answers a'),
                total_questions := length (questions a'), m_status := Some MsgActive\<rparr>)
         (messages s)\<rparr>"

section \<open>Auxiliary definitions for the proofs about the simulator\<close>

text \<open>
  The order on persisted states that the progress claim is about: the overall progress and
  the progress of every stage of the later state are at least those of the earlier one.
  A run is fine when the states it has committed are ordered so, in the order of the
  commits, and every one has a ProcessingStatus with an overall progress of at most 100.
\<close>

definition row_le :: "processing_status \<Rightarrow> processing_status \<Rightarrow> bool" where
  "row_le p q =
     (overall_progress p \<le> overall_progress q \<and>
      list_all2 (\<lambda>a b. progress a \<le> progress b) (stages p) (stages q))"

definition progress_le :: "app_state \<Rightarrow> app_state \<Rightarrow> bool" where
  "progress_le s t =
     (case processing s of
        None \<Rightarrow> False
      | Some p \<Rightarrow> (case processing t of None \<Rightarrow> False | Some q \<Rightarrow> row_le p q))"

definition progress_monotone :: "world \<Rightarrow> bool" where
  "progress_monotone w = sorted_wrt progress_le (history w)"

definition progress_bounded :: "world \<Rightarrow> bool" where
  "progress_bounded w =
     list_all (\<lambda>s. case processing s of None \<Rightarrow> False | Some p \<Rightarrow> overall_progress p \<le> 100)
       (history w)"

definition run_ok :: "world \<Rightarrow> bool" where
  "run_ok w = (progress_monotone w \<and> progress_bounded w)"

definition rounding :: "(real \<Rightarrow> real) \<Rightarrow> bool" where
  "rounding fl = (mono fl \<and> (\<forall>n\<le>100. fl (real n) = real n))"

definition weight_before :: "nat \<Rightarrow> nat" where
  "weight_before k = sum_list (map duration (take k PROCESSING_STAGES))"

definition overall_at :: "(real \<Rightarrow> real) \<Rightarrow> nat \<Rightarrow> nat \<Rightarrow> real" where
  "overall_at fl k step =
     min (overall_of fl (weight_before k) (step_progress fl step)
            (duration (PROCESSING_STAGES ! k))) 100"

definition step_inv :: "(real \<Rightarrow> real) \<Rightarrow> nat \<Rightarrow> nat \<Rightarrow> stage list \<Rightarrow> world \<Rightarrow> bool" where
  "step_inv fl k lo sl w =
     (run_ok w \<and> k < length PROCESSING_STAGES \<and> length sl = length PROCESSING_STAGES \<and>
      list_all (\<lambda>i. stage_status (sl ! i) = StageCompleted) [0..<k] \<and>
      progress (sl ! k) \<le> step_progress fl lo \<and>
      (case processing (db w) of
         None \<Rightarrow> False
       | Some p \<Rightarrow> stages p = sl \<and> overall_progress p \<le> overall_at fl k lo))"

definition stage_inv :: "(real \<Rightarrow> real) \<Rightarrow> nat \<Rightarrow> world \<Rightarrow> bool" where
  "stage_inv fl k w =
     (run_ok w \<and>
      (case processing (db w) of
         None \<Rightarrow> False
       | Some p \<Rightarrow>
           length (stages p) = length PROCESSING_STAGES \<and>
           list_all (\<lambda>i. stage_status (stages p ! i) = StageCompleted) [0..<k] \<and>
           list_all (\<lambda>i. progress (stages p ! i) \<le> 0) [k..<length PROCESSING_STAGES] \<and>
           (if k < length PROCESSING_STAGES then overall_progress p \<le> overall_at fl k 0
            else True)))"


text \<open>One round of the inner loop: the list it leaves and the commits it makes.\<close>

definition step_list :: "(real \<Rightarrow> real) \<Rightarrow> nat \<Rightarrow> nat \<Rightarrow> stage list \<Rightarrow> stage list" where
  "step_list fl k step sl = sl[k := (sl ! k)\<lparr>progress := step_progress fl step\<rparr>]"

definition step_world ::
  "(real \<Rightarrow> real) \<Rightarrow> nat \<Rightarrow> stage_config \<Rightarrow> nat \<Rightarrow> stage list \<Rightarrow> world \<Rightarrow> world" where
  "step_world fl k cfg step sl w =
     (let w1 = commit (update_processing_status
                 (\<lambda>p. p\<lparr>stages := step_list fl k step sl,
                        overall_progress :=
                          min (overall_of fl (completed_weight (step_list fl k step sl) k)
                                 (step_progress fl step) (duration cfg)) 100\<rparr>)) (polled w)
      in if step > 0 \<and> step mod (STEPS div 4) = 0 \<and> step < STEPS
         then commit (add_processing_log
                (progress_log (cfg_name cfg) (py_int (step_progress fl step))) Info) w1
         else w1)"

text \<open>
  A run that nobody has stopped, with a stage list of the given length; and two worlds
  whose sessions, messages, AmbiguityData and cycles are the same.
\<close>

definition running :: "nat \<Rightarrow> world \<Rightarrow> bool" where
  "running n w =
     (case processing (db w) of
        None \<Rightarrow> False
      | Some p \<Rightarrow> p_status p \<noteq> ProcStopped \<and> length (stages p) = n)"



section \<open>Answer submission\<close>

lemmas answer_defs = handle_single_answer_def handle_batch_answers_def
  update_ambiguity_data_def update_ambiguity_message_def update_session_def

lemmas example_defs = example_clock_def example_clocks_def finance_new_def finance_asked_def
  finance_answers_def finance_answered_def finance_started_def default_request_def
  messages_create_post_def create_session_def add_message_def handle_initial_query_def
  create_conversation_cycle_def update_conversation_cycle_ambiguity_def
  DOMAIN_AMBIGUITY_QUESTIONS_def create_ambiguity_data_def handle_ambiguity_response_def
  update_session_def

text \<open>
  After a successful call of either handler the stored index is the number of stored
  answers.
\<close>

lemma single_answer_index:
  "handle_single_answer clk x s = Inr s' \<Longrightarrow>
   \<exists>a. ambiguity s' = Some a \<and> current_question_index a = length (answers a)"
  by (auto simp: answer_defs Let_def split: option.splits if_splits)

lemma batch_answers_index:
  "handle_batch_answers clk xs s = Inr s' \<Longrightarrow>
   \<exists>a. ambiguity s' = Some a \<and> current_question_index a = length (answers a)"
  by (auto simp: answer_defs Let_def split: option.splits if_splits)

text \<open>The batch handler never stores more answers than there are questions.\<close>

lemma batch_answers_bounded:
  "handle_batch_answers clk xs s = Inr s' \<Longrightarrow>
   \<exists>a. ambiguity s' = Some a \<and> length (answers a) \<le> length (questions a)"
  by (auto simp: answer_defs Let_def split: option.splits if_splits)

text \<open>
  The single-answer handler keeps the bound only while a question is still open: it
  appends without looking at the number of questions.
\<close>

lemma single_answer_bounded:
  "ambiguity s = Some a \<Longrightarrow> length (answers a) < length (questions a) \<Longrightarrow>
   handle_single_answer clk x s = Inr s' \<Longrightarrow>
   \<exists>a'. ambiguity s' = Some a' \<and> length (answers a') \<le> length (questions a')"
  by (auto simp: answer_defs Let_def split: option.splits if_splits)

lemma single_answer_appends:
  "ambiguity s = Some a \<Longrightarrow> handle_single_answer clk x s = Inr s' \<Longrightarrow>
   \<exists>a'. ambiguity s' = Some a' \<and> answers a' = answers a @ [x] \<and> questions a' = questions a"
  by (auto simp: answer_defs Let_def split: option.splits if_splits)

text \<open>
  Claim C1.  The claim says that no AmbiguityData state holds more answers than questions
  and that after a successful answer submission the index equals the number of answers.
  The second half holds (\<open>single_answer_index\<close>, \<open>batch_answers_index\<close>).  The first half
  fails on the single-answer path: in the Finance session, whose two questions are both
  answered, one more single answer is accepted and stored, and the state then holds three
  answers for two questions.
\<close>

theorem single_answer_exceeds_question_count:
  "question_count finance_answered = Some 2 \<and>
   answer_count finance_answered = Some 2 \<and>
   Option.bind (result_state (handle_single_answer example_clock ''per month'' finance_answered))
     question_count = Some 2 \<and>
   Option.bind (result_state (handle_single_answer example_clock ''per month'' finance_answered))
     answer_count = Some 3"
  by (simp add: example_defs answer_defs Let_def result_state_def question_count_def
        answer_count_def)

text \<open>Two updates of the ambiguity message in a row leave what the second one writes.\<close>

lemma update_first_ambiguity_twice:
  "update_first_ambiguity
     (\<lambda>m. m\<lparr>current_question := c', answered_questions := a', total_questions := t',
            m_status := st'\<rparr>)
     (update_first_ambiguity
        (\<lambda>m. m\<lparr>current_question := c, answered_questions := a, total_questions := t,
               m_status := st\<rparr>) ms)
   = update_first_ambiguity
       (\<lambda>m. m\<lparr>current_question := c', answered_questions := a', total_questions := t',
              m_status := st'\<rparr>) ms"
  by (induction ms) auto

text \<open>
  The state after the answers that fill the open questions have been submitted one at a
  time: induction on the answers, the state and the call number generalised.
\<close>

lemma one_at_a_time_result:
  "ambiguity s = Some a \<Longrightarrow> batch \<noteq> [] \<Longrightarrow>
   length (answers a) + length batch = length (questions a) \<Longrightarrow>
   submit_one_at_a_time clks k batch s =
     Inr (s\<lparr>ambiguity := Some (a\<lparr>answers := answers a @ batch,
                 current_question_index := length (questions a),
                 a_status := AmbContextConfirmation,
                 completed_questions_at := Some (clks (k + length batch - 1) 0)\<rparr>),
            messages := update_first_ambiguity
               (\<lambda>m. m\<lparr>current_question := None,
                      answered_questions := length (questions a),
                      total_questions := length (questions a),
                      m_status := Some MsgContextConfirmation\<rparr>) (messages s),
            session := (session s)\<lparr>current_step := Context,
                 updated_at := clks (k + length batch - 1) 1\<rparr>\<rparr>)"
proof (induction batch arbitrary: s a k)
  case Nil
  then show ?case by simp
next
  case (Cons x rest)
  show ?case
  proof (cases rest)
    case Nil
    with Cons.prems show ?thesis
      by (simp add: answer_defs Let_def)
  next
    case (Cons y rest')
    let ?a' = "a\<lparr>answers := answers a @ [x],
                 current_question_index := Suc (length (answers a))\<rparr>"
    let ?s' = "s\<lparr>ambiguity := Some ?a',
        messages := update_first_ambiguity
          (\<lambda>m. m\<lparr>current_question := Some (questions a ! Suc (length (answers a))),
                 answered_questions := Suc (length (answers a)),
                 total_questions := length (questions a),
                 m_status := Some MsgActive\<rparr>) (messages s)\<rparr>"
    have step: "handle_single_answer (clks k) x s = Inr ?s'"
      using Cons.prems Cons by (simp add: answer_defs Let_def)
    have "submit_one_at_a_time clks (Suc k) rest ?s' =
       Inr (?s'\<lparr>ambiguity := Some (?a'\<lparr>answers := answers ?a' @ rest,
                 current_question_index := length (questions ?a'),
                 a_status := AmbContextConfirmation,
                 completed_questions_at := Some (clks (Suc k + length rest - 1) 0)\<rparr>),
            messages := update_first_ambiguity
               (\<lambda>m. m\<lparr>current_question := None,
                      answered_questions := length (questions ?a'),
                      total_questions := length (questions ?a'),
                      m_status := Some MsgContextConfirmation\<rparr>) (messages ?s'),
            session := (session ?s')\<lparr>current_step := Context,
                 updated_at := clks (Suc k + length rest - 1) 1\<rparr>\<rparr>)"
      by (rule Cons.IH) (use Cons.prems Cons in simp_all)
    then show ?thesis
      using step Cons by (simp add: update_first_ambiguity_twice)
  qed
qed

lemma batch_result:
  "ambiguity s = Some a \<Longrightarrow>
   length (answers a) + length batch = length (questions a) \<Longrightarrow>
   handle_batch_answers clk batch s =
     Inr (s\<lparr>ambiguity := Some (a\<lparr>answers := answers a @ batch,
                 current_question_index := length (questions a),
                 a_status := AmbContextConfirmation,
                 completed_questions_at := Some (clk 0)\<rparr>),
            messages := update_first_ambiguity
               (\<lambda>m. m\<lparr>current_question := None,
                      answered_questions := length (questions a),
                      total_questions := length (questions a),
                      m_status := Some MsgContextConfirmation\<rparr>) (messages s),
            session := (session s)\<lparr>current_step := Context, updated_at := clk 1\<rparr>\<rparr>)"
  by (simp add: answer_defs Let_def)

text \<open>
  Claim C3.  For an AmbiguityData with no answer yet and at least one question, a batch
  with one answer for each question is accepted in one call, which stores the batch, sets
  the index to the number of questions, the AmbiguityData status to
  \<^verbatim>\<open>context_confirmation\<close> and the session step to \<^verbatim>\<open>context\<close>.  Submitting the same
  answers one at a time is accepted too and ends in a state with the same questions,
  answers, index, AmbiguityData status, session step and messages; the two final states
  differ at most in the two timestamps the last call writes.
\<close>

theorem batch_equals_one_at_a_time:
  assumes "ambiguity s = Some a" and "answers a = []" and "questions a \<noteq> []"
    and "length batch = length (questions a)"
  shows "\<exists>sb ss ab.
     handle_batch_answers clk batch s = Inr sb \<and>
     submit_one_at_a_time clks 0 batch s = Inr ss \<and>
     ambiguity sb = Some ab \<and> answers ab = batch \<and>
     current_question_index ab = length batch \<and>
     a_status ab = AmbContextConfirmation \<and>
     current_step (session sb) = Context \<and>
     answering_outcome ss = answering_outcome sb \<and>
     ss = sb\<lparr>ambiguity := Some (ab\<lparr>completed_questions_at :=
                                     Some (clks (length batch - 1) 0)\<rparr>),
             session := (session sb)\<lparr>updated_at := clks (length batch - 1) 1\<rparr>\<rparr>"
proof -
  have ne: "batch \<noteq> []" using assms by auto
  have len: "length (answers a) + length batch = length (questions a)" using assms by simp
  show ?thesis
    unfolding batch_result[OF assms(1) len] one_at_a_time_result[OF assms(1) ne len]
    using assms by (simp add: answering_outcome_def)
qed

theorem batch_equals_one_at_a_time_witness:
  "ambiguity finance_asked \<noteq> None \<and>
   answer_count finance_asked = Some 0 \<and> question_count finance_asked = Some 2 \<and>
   length finance_answers = 2 \<and>
   result_state (handle_batch_answers example_clock finance_answers finance_asked) \<noteq> None \<and>
   map_option answering_outcome
     (result_state (submit_one_at_a_time example_clocks 0 finance_answers finance_asked)) =
   map_option answering_outcome
     (result_state (handle_batch_answers example_clock finance_answers finance_asked)) \<and>
   map_option (\<lambda>s. current_step (session s))
     (result_state (handle_batch_answers example_clock finance_answers finance_asked)) =
   Some Context"
proof -
  have "\<exists>a. ambiguity finance_asked = Some a \<and> answers a = [] \<and> length (questions a) = 2"
    by (simp add: example_defs Let_def)
  then obtain a where a: "ambiguity finance_asked = Some a" "answers a = []"
      "length (questions a) = 2"
    by blast
  have q: "questions a \<noteq> []" using a(3) by auto
  have l: "length finance_answers = length (questions a)"
    using a(3) by (simp add: finance_answers_def)
  from batch_equals_one_at_a_time [OF a(1) a(2) q l, of example_clock example_clocks]
  show ?thesis
    using a by (auto simp: result_state_def answer_count_def question_count_def
                  finance_answers_def)
qed

section \<open>Continue resolving\<close>

lemma set_fromkeys: "set (fromkeys seen xs) = set seen \<union> set xs"
  by (induction xs arbitrary: seen) auto

lemma distinct_fromkeys: "distinct seen \<Longrightarrow> distinct (fromkeys seen xs)"
  by (induction xs arbitrary: seen) auto

lemma fromkeys_distinct: "distinct (seen @ xs) \<Longrightarrow> fromkeys seen xs = seen @ xs"
  by (induction xs arbitrary: seen) auto

lemma distinct_list_dict_fromkeys: "distinct (list_dict_fromkeys xs)"
  by (simp add: list_dict_fromkeys_def distinct_fromkeys)

lemma set_list_dict_fromkeys: "set (list_dict_fromkeys xs) = set xs"
  by (simp add: list_dict_fromkeys_def set_fromkeys)

lemma list_dict_fromkeys_distinct: "distinct xs \<Longrightarrow> list_dict_fromkeys xs = xs"
  by (simp add: list_dict_fromkeys_def fromkeys_distinct)

lemma list_dict_fromkeys_idem:
  "list_dict_fromkeys (list_dict_fromkeys xs) = list_dict_fromkeys xs"
  by (simp add: list_dict_fromkeys_distinct distinct_list_dict_fromkeys)

lemma list_dict_fromkeys_Nil_iff: "list_dict_fromkeys xs = [] \<longleftrightarrow> xs = []"
  using set_list_dict_fromkeys[of xs] by (metis set_empty)

lemma same_length_distinct:
  assumes "length (list_dict_fromkeys xs) = length xs"
  shows "distinct xs"
  using assms distinct_list_dict_fromkeys[of xs] set_list_dict_fromkeys[of xs]
  by (metis card_distinct distinct_card)

lemma distinct_ADDITIONAL_QUESTIONS: "distinct ADDITIONAL_QUESTIONS"
  by (simp add: ADDITIONAL_QUESTIONS_def)

lemma distinct_extend_questions: "distinct (extend_questions n qs)"
  by (auto simp: extend_questions_def distinct_list_dict_fromkeys distinct_ADDITIONAL_QUESTIONS)

text \<open>
  Extending twice is extending once: after the first extension every additional question
  is in the list, so a second extension has nothing to append.
\<close>

lemma extend_questions_idem:
  "extend_questions n (extend_questions n qs) = extend_questions n qs"
proof -
  have d: "list_dict_fromkeys (extend_questions n qs) = extend_questions n qs"
    by (rule list_dict_fromkeys_distinct) (rule distinct_extend_questions)
  show ?thesis
  proof (cases "length (list_dict_fromkeys qs) \<le> n")
    case True
    then have e: "extend_questions n qs = list_dict_fromkeys qs @
        filter (\<lambda>q. q \<notin> set (list_dict_fromkeys qs)) ADDITIONAL_QUESTIONS"
      by (simp add: extend_questions_def)
    have "filter (\<lambda>q. q \<notin> set (extend_questions n qs)) ADDITIONAL_QUESTIONS = []"
      unfolding e by (auto simp: filter_empty_conv)
    then show ?thesis
      unfolding extend_questions_def[of n "extend_questions n qs"] d by simp
  next
    case False
    then have e: "extend_questions n qs = list_dict_fromkeys qs"
      by (simp add: extend_questions_def)
    show ?thesis
      unfolding extend_questions_def[of n "extend_questions n qs"] d using False e by simp
  qed
qed

lemma clean_duplicate_questions_eq:
  assumes "ambiguity s = Some a"
  shows "clean_duplicate_questions s =
     s\<lparr>ambiguity := Some (a\<lparr>questions := list_dict_fromkeys (questions a),
                               current_question_index := cleaned_index a\<rparr>)\<rparr>"
proof (cases "length (list_dict_fromkeys (questions a)) = length (questions a)")
  case True
  then have "list_dict_fromkeys (questions a) = questions a"
    by (intro list_dict_fromkeys_distinct same_length_distinct)
  then show ?thesis using assms
    by (simp add: clean_duplicate_questions_def Let_def cleaned_index_def)
next
  case False
  then have "questions a \<noteq> []" by (auto simp: list_dict_fromkeys_def)
  then show ?thesis using assms False
    by (simp add: clean_duplicate_questions_def Let_def update_ambiguity_data_def
          cleaned_index_def list_dict_fromkeys_Nil_iff)
qed

lemma continue_resolving_result:
  assumes "ambiguity s = Some a"
  shows "continue_resolving now s =
     Inr (continued now s (continued_data (initial_count_of s) a))"
  unfolding continue_resolving_def clean_duplicate_questions_eq[OF assms]
  by (simp add: Let_def list_dict_fromkeys_idem extend_questions_def initial_count_of_def
        answer_defs continued_def continued_data_def continued_prompt_def)

lemma cleaned_index_distinct:
  "distinct (questions a) \<Longrightarrow> cleaned_index a = current_question_index a"
  by (simp add: cleaned_index_def list_dict_fromkeys_distinct)

lemma continued_data_twice: "continued_data n (continued_data n a) = continued_data n a"
proof -
  have "cleaned_index (continued_data n a) = current_question_index (continued_data n a)"
    by (rule cleaned_index_distinct) (simp add: continued_data_def distinct_extend_questions)
  then show ?thesis
    by (simp add: continued_data_def extend_questions_idem)
qed

lemma continued_twice:
  "continued now' (continued now s a') a' =
   (continued now s a')\<lparr>session := (session (continued now s a'))\<lparr>updated_at := now'\<rparr>\<rparr>"
  by (simp add: continued_def update_first_ambiguity_twice)

text \<open>
  Claim C2.  For a session that has AmbiguityData, ``continue resolving'' succeeds, leaves
  a question list without duplicates, and a second call right after it succeeds and
  changes nothing but the session's \<^verbatim>\<open>updated_at\<close>: the question list, and with it its
  length and its set of elements, is the same after both calls.
\<close>

theorem continue_resolving_idempotent:
  assumes "ambiguity s = Some a"
  shows "\<exists>s1 s2 a1.
     continue_resolving now s = Inr s1 \<and> continue_resolving now' s1 = Inr s2 \<and>
     ambiguity s1 = Some a1 \<and> distinct (questions a1) \<and>
     map_option questions (ambiguity s2) = Some (questions a1) \<and>
     s2 = s1\<lparr>session := (session s1)\<lparr>updated_at := now'\<rparr>\<rparr>"
proof -
  let ?a1 = "continued_data (initial_count_of s) a"
  let ?s1 = "continued now s ?a1"
  have r: "continue_resolving now s = Inr ?s1"
    by (rule continue_resolving_result[OF assms])
  have a1: "ambiguity ?s1 = Some ?a1" by (simp add: continued_def)
  have d: "distinct (questions ?a1)"
    by (simp add: continued_data_def distinct_extend_questions)
  have ic: "initial_count_of ?s1 = initial_count_of s"
    by (simp add: continued_def initial_count_of_def)
  have "continue_resolving now' ?s1 =
      Inr (continued now' ?s1 (continued_data (initial_count_of ?s1) ?a1))"
    by (rule continue_resolving_result[OF a1])
  then have r2: "continue_resolving now' ?s1 =
      Inr (?s1\<lparr>session := (session ?s1)\<lparr>updated_at := now'\<rparr>\<rparr>)"
    by (simp only: ic continued_data_twice continued_twice)
  show ?thesis
    using r r2 a1 d
    by (intro exI[of _ ?s1] exI[of _ "?s1\<lparr>session := (session ?s1)\<lparr>updated_at := now'\<rparr>\<rparr>"]
          exI[of _ ?a1]) simp
qed

theorem continue_resolving_idempotent_witness:
  "ambiguity finance_answered \<noteq> None \<and>
   Option.bind (result_state (continue_resolving 7 finance_answered)) question_count = Some 5 \<and>
   (\<exists>s1. continue_resolving 7 finance_answered = Inr s1 \<and>
         continue_resolving 8 s1 = Inr (s1\<lparr>session := (session s1)\<lparr>updated_at := 8\<rparr>\<rparr>))"
proof -
  have "\<exists>a. ambiguity finance_answered = Some a \<and> length (questions a) = 2"
    by (simp add: example_defs answer_defs Let_def)
  then obtain a where a: "ambiguity finance_answered = Some a" "length (questions a) = 2"
    by blast
  have n: "initial_count_of finance_answered = 2"
    by (simp add: initial_count_of_def example_defs answer_defs Let_def)
  have "\<forall>a'. ambiguity finance_answered = Some a' \<longrightarrow>
          length (extend_questions 2 (questions a')) = 5"
    by (simp add: example_defs answer_defs Let_def extend_questions_def
          list_dict_fromkeys_def ADDITIONAL_QUESTIONS_def)
  then have e: "length (extend_questions 2 (questions a)) = 5"
    using a(1) by blast
  have r: "continue_resolving 7 finance_answered =
      Inr (continued 7 finance_answered (continued_data 2 a))"
    using continue_resolving_result[OF a(1), of 7] n by simp
  from continue_resolving_idempotent [OF a(1), of 7 8]
  show ?thesis
    using a r e by (auto simp: result_state_def question_count_def continued_def
                      continued_data_def)
qed

section \<open>A message while the session is at the ambiguity step\<close>

text \<open>
  Claim C10.  When the session is at step \<^verbatim>\<open>ambiguity\<close>, a message-create request with
  non-empty content succeeds and persists the user's message, appended as the last
  message, and the bump of the session's \<^verbatim>\<open>updated_at\<close> that every \<^verbatim>\<open>add_message\<close>
  makes; nothing else changes: the AmbiguityData, the session's step, status and domain,
  the earlier messages, the processing row, the logs and the cycles are as before.
\<close>

theorem message_at_ambiguity_step:
  assumes "current_step (session s) = Ambiguity" and "query \<noteq> []"
  shows "\<exists>s'. messages_create_post clk query s = Inr s' \<and>
     s' = s\<lparr>messages := messages s @
               [\<lparr>m_type = User, content = query, m_status = Some MsgCompleted,
                 current_question = None, answered_questions = 0, total_questions = 0,
                 all_questions = None, expanded = False\<rparr>],
             session := (session s)\<lparr>updated_at := clk 0\<rparr>\<rparr> \<and>
     ambiguity s' = ambiguity s \<and>
     current_step (session s') = current_step (session s) \<and>
     length (messages s') = Suc (length (messages s)) \<and>
     m_type (last (messages s')) = User"
  using assms
  by (simp add: messages_create_post_def handle_ambiguity_response_def add_message_def Let_def)

theorem message_at_ambiguity_step_witness:
  "current_step (session finance_asked) = Ambiguity \<and>
   result_state (messages_create_post example_clock ''geographic regions'' finance_asked) =
     Some (finance_asked\<lparr>messages := messages finance_asked @
               [\<lparr>m_type = User, content = ''geographic regions'',
                 m_status = Some MsgCompleted,
                 current_question = None, answered_questions = 0, total_questions = 0,
                 all_questions = None, expanded = False\<rparr>],
             session := (session finance_asked)\<lparr>updated_at := 0\<rparr>\<rparr>) \<and>
   answer_count finance_asked = Some 0"
proof -
  have st: "current_step (session finance_asked) = Ambiguity"
    by (simp add: example_defs Let_def)
  have ne: "''geographic regions'' \<noteq> []" by simp
  have ac: "answer_count finance_asked = Some 0"
    by (simp add: example_defs Let_def answer_count_def)
  from message_at_ambiguity_step [OF st ne, of example_clock]
  show ?thesis using st ac by (auto simp: result_state_def example_clock_def)
qed

section \<open>Stopping a run\<close>

lemma stopped_stage_nth:
  "i < length sts \<Longrightarrow>
   map (stop_stage clk) (enumerate 0 sts) ! i = stop_stage clk (i, sts ! i)"
  by (simp add: nth_enumerate_eq)

text \<open>
  Claim C5.  For a ProcessingStatus whose status is \<^verbatim>\<open>processing\<close>, the stop request
  succeeds; the stages that were \<^verbatim>\<open>processing\<close> become \<^verbatim>\<open>stopped\<close> (and get a completion
  timestamp), the stages that were \<^verbatim>\<open>queued\<close> become \<^verbatim>\<open>cancelled\<close>, and every other
  stage, a \<^verbatim>\<open>completed\<close> one in particular, is left as it was, with its status, progress
  and timestamps.  So a stage is \<^verbatim>\<open>stopped\<close> afterwards exactly if it was \<^verbatim>\<open>processing\<close> (or
  already \<^verbatim>\<open>stopped\<close>) and \<^verbatim>\<open>cancelled\<close> exactly if it was \<^verbatim>\<open>queued\<close> (or already
  \<^verbatim>\<open>cancelled\<close>).
\<close>

theorem stop_marks_stages:
  assumes "processing s = Some p" and "p_status p = ProcProcessing"
  shows "\<exists>s' p'. processing_stop_post clk s = Inr s' \<and> processing s' = Some p' \<and>
     p_status p' = ProcStopped \<and> length (stages p') = length (stages p) \<and>
     (\<forall>i < length (stages p).
        (stage_status (stages p ! i) = StageProcessing \<longrightarrow>
           stages p' ! i = (stages p ! i)\<lparr>stage_status := StageStopped,
                                           stage_completed_at := Some (clk i)\<rparr>) \<and>
        (stage_status (stages p ! i) = Queued \<longrightarrow>
           stages p' ! i = (stages p ! i)\<lparr>stage_status := Cancelled\<rparr>) \<and>
        (stage_status (stages p ! i) \<noteq> StageProcessing \<and> stage_status (stages p ! i) \<noteq> Queued
           \<longrightarrow> stages p' ! i = stages p ! i) \<and>
        (stage_status (stages p ! i) = StageCompleted \<longrightarrow> stages p' ! i = stages p ! i) \<and>
        (stage_status (stages p' ! i) = StageStopped \<longleftrightarrow>
           stage_status (stages p ! i) = StageProcessing \<or>
           stage_status (stages p ! i) = StageStopped) \<and>
        (stage_status (stages p' ! i) = Cancelled \<longleftrightarrow>
           stage_status (stages p ! i) = Queued \<or> stage_status (stages p ! i) = Cancelled))"
proof -
  let ?sts = "map (stop_stage clk) (enumerate 0 (stages p))"
  let ?p' = "p\<lparr>p_status := ProcStopped, stages := ?sts\<rparr>"
  have "\<exists>s'. processing_stop_post clk s = Inr s' \<and> processing s' = Some ?p'"
    using assms
    by (simp add: processing_stop_post_def Let_def update_processing_status_def
          add_processing_log_def update_session_def add_message_def)
  then obtain s' where s': "processing_stop_post clk s = Inr s'" "processing s' = Some ?p'"
    by blast
  have "(stage_status (stages p ! i) = StageProcessing \<longrightarrow>
           ?sts ! i = (stages p ! i)\<lparr>stage_status := StageStopped,
                                           stage_completed_at := Some (clk i)\<rparr>) \<and>
        (stage_status (stages p ! i) = Queued \<longrightarrow>
           ?sts ! i = (stages p ! i)\<lparr>stage_status := Cancelled\<rparr>) \<and>
        (stage_status (stages p ! i) \<noteq> StageProcessing \<and> stage_status (stages p ! i) \<noteq> Queued
           \<longrightarrow> ?sts ! i = stages p ! i) \<and>
        (stage_status (stages p ! i) = StageCompleted \<longrightarrow> ?sts ! i = stages p ! i) \<and>
        (stage_status (?sts ! i) = StageStopped \<longleftrightarrow>
           stage_status (stages p ! i) = StageProcessing \<or>
           stage_status (stages p ! i) = StageStopped) \<and>
        (stage_status (?sts ! i) = Cancelled \<longleftrightarrow>
           stage_status (stages p ! i) = Queued \<or> stage_status (stages p ! i) = Cancelled)"
    if "i < length (stages p)" for i
    unfolding stopped_stage_nth[OF that] by (simp add: stop_stage_def)
  then show ?thesis
    using s' by (intro exI[of _ s'] exI[of _ ?p']) simp
qed

lemmas started_defs = processing_start_post_def create_processing_status_def
  PROCESSING_STAGES_def complete_ambiguity_resolution_def clear_processing_logs_def
  delete_processing_status_def MIN_PROCESSING_TIME_def MAX_PROCESSING_TIME_def
  DEFAULT_PROCESSING_TIME_def

lemma finance_mid_run_stages:
  "map_option (\<lambda>p. (p_status p, map stage_status (stages p))) (processing finance_mid_run) =
   Some (ProcProcessing,
     [StageCompleted, StageProcessing, Queued, Queued, Queued, Queued, Queued])"
  by (simp add: finance_mid_run_def update_processing_status_def example_defs answer_defs
        started_defs Let_def)

lemma finance_mid_run_stopped:
  "map_option (\<lambda>p. (p_status p, map stage_status (stages p)))
     (Option.bind (result_state (processing_stop_post example_clock finance_mid_run)) processing) =
     Some (ProcStopped,
       [StageCompleted, StageStopped, Cancelled, Cancelled, Cancelled, Cancelled, Cancelled])"
  by (simp add: finance_mid_run_def update_processing_status_def example_defs answer_defs
        started_defs Let_def processing_stop_post_def result_state_def stop_stage_def
        add_processing_log_def)

theorem stop_marks_stages_witness:
  "map_option (\<lambda>p. (p_status p, map stage_status (stages p))) (processing finance_mid_run) =
     Some (ProcProcessing,
       [StageCompleted, StageProcessing, Queued, Queued, Queued, Queued, Queued]) \<and>
   (\<exists>s' p'. processing_stop_post example_clock finance_mid_run = Inr s' \<and>
      processing s' = Some p' \<and> p_status p' = ProcStopped \<and>
      map stage_status (stages p') =
        [StageCompleted, StageStopped, Cancelled, Cancelled, Cancelled, Cancelled, Cancelled])"
proof -
  from finance_mid_run_stages obtain p where
    p: "processing finance_mid_run = Some p" "p_status p = ProcProcessing"
    by auto
  from stop_marks_stages [OF p(1) p(2), of example_clock] obtain s' p' where
    r: "processing_stop_post example_clock finance_mid_run = Inr s'"
       "processing s' = Some p'" "p_status p' = ProcStopped"
    by blast
  from finance_mid_run_stopped r(1) r(2)
  have h: "map stage_status (stages p') =
      [StageCompleted, StageStopped, Cancelled, Cancelled, Cancelled, Cancelled, Cancelled]"
    by (simp add: result_state_def)
  have "\<exists>s' p'. processing_stop_post example_clock finance_mid_run = Inr s' \<and>
      processing s' = Some p' \<and> p_status p' = ProcStopped \<and>
      map stage_status (stages p') =
        [StageCompleted, StageStopped, Cancelled, Cancelled, Cancelled, Cancelled, Cancelled]"
    using r h by (intro exI[of _ s'] exI[of _ p']) simp
  then show ?thesis using finance_mid_run_stages by (rule conjI[rotated])
qed

section \<open>Starting a run\<close>

lemma start_post_result:
  "\<exists>s'. processing_start_post clk req s =
      Inr (\<lparr>processing_time =
              (case req_processing_time req of
                 None \<Rightarrow> DEFAULT_PROCESSING_TIME
               | Some t \<Rightarrow> if t < MIN_PROCESSING_TIME \<or> MAX_PROCESSING_TIME < t
                           then DEFAULT_PROCESSING_TIME else t),
            analytics_depth =
              (case req_analytics_depth req of None \<Rightarrow> ''moderate'' | Some d \<Rightarrow> d),
            reporting_style =
              (case req_reporting_style req of None \<Rightarrow> ''detailed'' | Some r \<Rightarrow> r),
            cross_validation =
              (case req_cross_validation req of None \<Rightarrow> ''medium'' | Some c \<Rightarrow> c)\<rparr>, s') \<and>
     map_option config (processing s') =
       Some \<lparr>processing_time =
              (case req_processing_time req of
                 None \<Rightarrow> DEFAULT_PROCESSING_TIME
               | Some t \<Rightarrow> if t < MIN_PROCESSING_TIME \<or> MAX_PROCESSING_TIME < t
                           then DEFAULT_PROCESSING_TIME else t),
            analytics_depth =
              (case req_analytics_depth req of None \<Rightarrow> ''moderate'' | Some d \<Rightarrow> d),
            reporting_style =
              (case req_reporting_style req of None \<Rightarrow> ''detailed'' | Some r \<Rightarrow> r),
            cross_validation =
              (case req_cross_validation req of None \<Rightarrow> ''medium'' | Some c \<Rightarrow> c)\<rparr>"
  by (cases "processing s"; cases "ambiguity s"; cases "req_processing_time req")
     (simp_all add: processing_start_post_def create_processing_status_def Let_def
        update_session_def complete_ambiguity_resolution_def clear_processing_logs_def
        delete_processing_status_def DEFAULT_PROCESSING_TIME_def MIN_PROCESSING_TIME_def
        MAX_PROCESSING_TIME_def)

text \<open>
  Claim C7, as the code has it.  Starting always succeeds.  Of the four parameters only
  the duration is checked against configured bounds: a duration that is absent, below the
  minimum or above the maximum is replaced by the default duration, any other is kept.
  Analytics depth, reporting style and cross-validation level are stored as the request
  gives them, whatever the value; their defaults \<^verbatim>\<open>moderate\<close>, \<^verbatim>\<open>detailed\<close>, \<^verbatim>\<open>medium\<close> are
  used only when the key is absent.
\<close>

theorem start_validates_duration_only:
  "\<exists>cfg s'. processing_start_post clk req s = Inr (cfg, s') \<and>
     map_option config (processing s') = Some cfg \<and>
     (\<forall>t. req_processing_time req = Some t \<and>
          (t < MIN_PROCESSING_TIME \<or> MAX_PROCESSING_TIME < t) \<longrightarrow>
          processing_time cfg = DEFAULT_PROCESSING_TIME) \<and>
     (\<forall>t. req_processing_time req = Some t \<and>
          MIN_PROCESSING_TIME \<le> t \<and> t \<le> MAX_PROCESSING_TIME \<longrightarrow> processing_time cfg = t) \<and>
     (req_processing_time req = None \<longrightarrow> processing_time cfg = DEFAULT_PROCESSING_TIME) \<and>
     analytics_depth cfg =
       (case req_analytics_depth req of None \<Rightarrow> ''moderate'' | Some d \<Rightarrow> d) \<and>
     reporting_style cfg =
       (case req_reporting_style req of None \<Rightarrow> ''detailed'' | Some r \<Rightarrow> r) \<and>
     cross_validation cfg =
       (case req_cross_validation req of None \<Rightarrow> ''medium'' | Some c \<Rightarrow> c)"
proof -
  from start_post_result [of clk req s] obtain s' cfg where
    r: "processing_start_post clk req s = Inr (cfg, s')"
       "map_option config (processing s') = Some cfg"
    and cfg: "cfg = \<lparr>processing_time =
              (case req_processing_time req of
                 None \<Rightarrow> DEFAULT_PROCESSING_TIME
               | Some t \<Rightarrow> if t < MIN_PROCESSING_TIME \<or> MAX_PROCESSING_TIME < t
                           then DEFAULT_PROCESSING_TIME else t),
            analytics_depth =
              (case req_analytics_depth req of None \<Rightarrow> ''moderate'' | Some d \<Rightarrow> d),
            reporting_style =
              (case req_reporting_style req of None \<Rightarrow> ''detailed'' | Some r \<Rightarrow> r),
            cross_validation =
              (case req_cross_validation req of None \<Rightarrow> ''medium'' | Some c \<Rightarrow> c)\<rparr>"
    by blast
  show ?thesis
    using r by (intro exI[of _ cfg] exI[of _ s']) (auto simp: cfg)
qed

theorem start_validates_duration_only_witness:
  "req_processing_time short_request = Some 1 \<and> (1::real) < MIN_PROCESSING_TIME \<and>
   map_option processing_time
     (started_config (processing_start_post example_clock short_request finance_answered)) =
     Some DEFAULT_PROCESSING_TIME"
proof -
  have h: "req_processing_time short_request = Some 1" "(1::real) < MIN_PROCESSING_TIME"
    by (simp_all add: short_request_def default_request_def MIN_PROCESSING_TIME_def)
  from start_validates_duration_only [of example_clock short_request finance_answered] h
  show ?thesis by (auto simp: started_config_def)
qed

text \<open>
  Claim C7 as stated fails: a start request with the analytics depth \<^verbatim>\<open>bogus\<close>, which
  is none of the configured depths, is accepted and \<^verbatim>\<open>bogus\<close> is what is stored.
\<close>

theorem start_keeps_unknown_depth:
  "map_option analytics_depth
     (started_config (processing_start_post example_clock bogus_depth_request finance_answered))
     = Some ''bogus'' \<and>
   map_option analytics_depth
     (map_option config (Option.bind
        (started_state (processing_start_post example_clock bogus_depth_request finance_answered))
        processing))
     = Some ''bogus'' \<and>
   ''bogus'' \<notin> set ANALYSIS_DEPTHS"
  by (simp add: bogus_depth_request_def example_defs answer_defs started_defs Let_def
        started_config_def started_state_def ANALYSIS_DEPTHS_def)

section \<open>Results\<close>

lemma get_verification_status_range: "get_verification_status u \<in> set verification_statuses"
  by (simp add: get_verification_status_def verification_statuses_def)

lemma results_ignore_the_draw:
  "analytics_results_get generate now s = Inr r \<Longrightarrow>
   verification_status r = ''self._get_verification_status()'' \<and>
   verification_status r \<noteq> get_verification_status u"
  by (auto simp: analytics_results_get_def get_verification_status_def
        verification_statuses_def split: if_splits)

lemma fold_add_processing_log_frame:
  "session (fold (\<lambda>m. add_processing_log m ty) ms s) = session s \<and>
   processing (fold (\<lambda>m. add_processing_log m ty) ms s) = processing s \<and>
   messages (fold (\<lambda>m. add_processing_log m ty) ms s) = messages s \<and>
   ambiguity (fold (\<lambda>m. add_processing_log m ty) ms s) = ambiguity s \<and>
   cycles (fold (\<lambda>m. add_processing_log m ty) ms s) = cycles s"
  by (induction ms arbitrary: s) (auto simp: add_processing_log_def split: option.splits)

lemma populate_dummy_logs_frame:
  "session (populate_dummy_logs s) = session s \<and>
   processing (populate_dummy_logs s) = processing s \<and>
   messages (populate_dummy_logs s) = messages s \<and>
   ambiguity (populate_dummy_logs s) = ambiguity s \<and>
   cycles (populate_dummy_logs s) = cycles s"
  by (simp add: populate_dummy_logs_def fold_add_processing_log_frame clear_processing_logs_def)

lemma complete_post_session:
  "\<exists>s'. processing_complete_post clk s = Inr s' \<and>
     session s' = (session s)\<lparr>current_step := Completed, status := SessCompleted,
                                updated_at := clk 2\<rparr> \<and>
     messages s' = set_first_status AmbiguityMessage MsgCompleted
        (messages s @ [report_message (complete_generate_analytics_result (domain (session s)))])"
  by (simp add: processing_complete_post_def Let_def update_message_status_def add_message_def
        update_session_def update_processing_status_def populate_dummy_logs_frame
        split: option.splits)

text \<open>
  Claim C8.  The claim says the verification status of the results is a weighted random
  draw.  In the code the value of the key is the text of the call in quotes, so every
  response carries that text, which is none of the three statuses the draw can give: here
  for the results of the force-completed Finance session.
\<close>

theorem results_verification_status_is_literal:
  "map_option verification_status
     (result_state (analytics_results_get generate now finance_completed)) =
     Some ''self._get_verification_status()'' \<and>
   ''self._get_verification_status()'' \<notin> set verification_statuses"
proof -
  from complete_post_session [of example_clock finance_started]
  have "current_step (session finance_completed) = Completed"
    by (auto simp: finance_completed_def)
  then show ?thesis
    by (simp add: analytics_results_get_def result_state_def verification_statuses_def)
qed

section \<open>Progress of a run\<close>

lemma row_le_refl: "row_le p p"
  by (simp add: row_le_def list_all2_refl)

lemma row_le_trans:
  assumes "row_le p q" and "row_le q r"
  shows "row_le p r"
proof -
  have 1: "list_all2 (\<lambda>a b. progress a \<le> progress b) (stages p) (stages q)"
    and 2: "list_all2 (\<lambda>a b. progress a \<le> progress b) (stages q) (stages r)"
    using assms by (simp_all add: row_le_def)
  have "list_all2 (\<lambda>a b. progress a \<le> progress b) (stages p) (stages r)"
    by (rule list_all2_trans[OF _ 1 2]) (rule order_trans)
  then show ?thesis
    using assms by (simp add: row_le_def)
qed

lemma progress_le_trans: "progress_le s t \<Longrightarrow> progress_le t u \<Longrightarrow> progress_le s u"
  by (auto simp: progress_le_def split: option.splits intro: row_le_trans)

lemma progress_le_same_row:
  "processing s = Some p \<Longrightarrow> processing t = Some p \<Longrightarrow> progress_le s t"
  by (simp add: progress_le_def row_le_refl)

lemma history_commit: "history (commit f w) = history w @ [f (db w)]"
  by (simp add: history_def commit_def)

lemma history_polled: "history (polled w) = history w"
  by (simp add: history_def polled_def)

lemma db_in_history: "db w \<in> set (history w)"
  by (simp add: history_def)

lemma progress_le_last:
  assumes "progress_monotone w" and "s \<in> set (history w)" 
  shows "s = db w \<or> progress_le s (db w)"
  using assms by (auto simp: progress_monotone_def history_def sorted_wrt_append)

text \<open>
  A commit keeps the history monotone and bounded when the new state is above the
  current one and its overall progress is at most 100.
\<close>

lemma run_ok_commit:
  assumes "run_ok w" and "progress_le (db w) (f (db w))"
    and "\<And>p. processing (f (db w)) = Some p \<Longrightarrow> overall_progress p \<le> 100"
  shows "run_ok (commit f w)"
proof -
  have "progress_le s (f (db w))" if "s \<in> set (history w)" for s
    using progress_le_last[OF _ that] assms(1,2)
    by (auto simp: run_ok_def intro: progress_le_trans)
  moreover have "processing (f (db w)) \<noteq> None"
    using assms(2) by (auto simp: progress_le_def split: option.splits)
  ultimately show ?thesis
    using assms(1,3)
    by (auto simp: run_ok_def progress_monotone_def progress_bounded_def history_commit
          sorted_wrt_append split: option.splits)
qed

lemma run_ok_polled: "run_ok (polled w) = run_ok w"
  by (simp add: run_ok_def progress_monotone_def progress_bounded_def history_polled)

lemma run_ok_row_bounded:
  "run_ok w \<Longrightarrow> processing (db w) = Some p \<Longrightarrow> overall_progress p \<le> 100"
  using db_in_history[of w]
  by (auto simp: run_ok_def progress_bounded_def list_all_iff split: option.splits)

lemma run_ok_row: "run_ok w \<Longrightarrow> processing (db w) \<noteq> None"
  using db_in_history[of w]
  by (auto simp: run_ok_def progress_bounded_def list_all_iff split: option.splits)

lemma run_ok_same_row:
  assumes "run_ok w" and "processing (f (db w)) = processing (db w)"
  shows "run_ok (commit f w)"
proof -
  from run_ok_row[OF assms(1)] obtain p where p: "processing (db w) = Some p" by auto
  show ?thesis
    using assms p run_ok_row_bounded[OF assms(1) p]
    by (intro run_ok_commit) (auto intro: progress_le_same_row)
qed

lemma processing_add_processing_log [simp]:
  "processing (add_processing_log m ty s) = processing s"
  by (simp add: add_processing_log_def split: option.splits)

lemma run_ok_log: "run_ok w \<Longrightarrow> run_ok (commit (add_processing_log m ty) w)"
  by (rule run_ok_same_row) simp_all

lemma db_commit [simp]: "db (commit f w) = f (db w)"
  by (simp add: commit_def)

lemma db_polled [simp]: "db (polled w) = db w"
  by (simp add: polled_def)

subsection \<open>The arithmetic\<close>

lemma rounding_mono: "rounding fl \<Longrightarrow> x \<le> y \<Longrightarrow> fl x \<le> fl y"
  by (simp add: rounding_def mono_def)

lemma rounding_fix: "rounding fl \<Longrightarrow> n \<le> 100 \<Longrightarrow> fl (real n) = real n"
  by (simp add: rounding_def)

lemma rounding_0: "rounding fl \<Longrightarrow> fl 0 = 0"
  using rounding_fix[of fl 0] by simp

lemma rounding_1: "rounding fl \<Longrightarrow> fl 1 = 1"
  using rounding_fix[of fl 1] by simp

lemma rounding_100: "rounding fl \<Longrightarrow> fl 100 = 100"
  using rounding_fix[of fl 100] by simp

lemma step_progress_mono:
  assumes "rounding fl" and "a \<le> b"
  shows "step_progress fl a \<le> step_progress fl b"
proof -
  note m = rounding_mono[OF assms(1)]
  have "real a / real STEPS \<le> real b / real STEPS"
    using assms(2) by (simp add: divide_right_mono)
  then have "fl (real a / real STEPS) * 100 \<le> fl (real b / real STEPS) * 100"
    by (intro mult_right_mono m) simp_all
  then show ?thesis
    unfolding step_progress_def by (rule m)
qed

lemma step_progress_0: "rounding fl \<Longrightarrow> step_progress fl 0 = 0"
  by (simp add: step_progress_def rounding_0)

lemma step_progress_STEPS: "rounding fl \<Longrightarrow> step_progress fl STEPS = 100"
  by (simp add: step_progress_def STEPS_def rounding_1 rounding_100)

lemma overall_of_mono:
  assumes "rounding fl" and "x \<le> y"
  shows "overall_of fl cw x d \<le> overall_of fl cw y d"
proof -
  note m = rounding_mono[OF assms(1)]
  have "fl (x / 100) * real d \<le> fl (y / 100) * real d"
    using assms(2) by (intro mult_right_mono m divide_right_mono) simp_all
  then have "real cw + fl (fl (x / 100) * real d) \<le> real cw + fl (fl (y / 100) * real d)"
    by (intro add_left_mono m)
  then have "fl (real cw + fl (fl (x / 100) * real d)) / real total_weight
      \<le> fl (real cw + fl (fl (y / 100) * real d)) / real total_weight"
    by (intro divide_right_mono m) simp_all
  then have "fl (fl (real cw + fl (fl (x / 100) * real d)) / real total_weight) * 100
      \<le> fl (fl (real cw + fl (fl (y / 100) * real d)) / real total_weight) * 100"
    by (intro mult_right_mono m) simp_all
  then show ?thesis
    unfolding overall_of_def Let_def by (rule m)
qed

lemma overall_at_mono:
  "rounding fl \<Longrightarrow> a \<le> b \<Longrightarrow> overall_at fl k a \<le> overall_at fl k b"
  unfolding overall_at_def
  by (intro min.mono overall_of_mono step_progress_mono) simp_all

lemma overall_at_bounded: "overall_at fl k a \<le> 100"
  by (simp add: overall_at_def)

lemma duration_bounded:
  "k < length PROCESSING_STAGES \<Longrightarrow> duration (PROCESSING_STAGES ! k) \<le> 100"
proof -
  have "list_all (\<lambda>c. duration c \<le> 100) PROCESSING_STAGES"
    by (simp add: PROCESSING_STAGES_def)
  then show "k < length PROCESSING_STAGES \<Longrightarrow> duration (PROCESSING_STAGES ! k) \<le> 100"
    by (simp add: list_all_length)
qed

lemma weight_before_Suc:
  "k < length PROCESSING_STAGES \<Longrightarrow>
   weight_before (Suc k) = weight_before k + duration (PROCESSING_STAGES ! k)"
  by (simp add: weight_before_def take_Suc_conv_app_nth)

text \<open>
  The overall progress the last step of a stage writes is the one the first step of the
  next stage writes.
\<close>

lemma overall_at_next:
  assumes "rounding fl" and "Suc k < length PROCESSING_STAGES"
  shows "overall_at fl k STEPS = overall_at fl (Suc k) 0"
proof -
  have k: "k < length PROCESSING_STAGES" using assms(2) by simp
  have d: "fl (real (duration (PROCESSING_STAGES ! k))) = real (duration (PROCESSING_STAGES ! k))"
    by (rule rounding_fix[OF assms(1) duration_bounded[OF k]])
  show ?thesis
    by (simp add: overall_at_def overall_of_def step_progress_STEPS[OF assms(1)]
          step_progress_0[OF assms(1)] rounding_0[OF assms(1)] rounding_1[OF assms(1)] d
          weight_before_Suc[OF k])
qed

lemma completed_weight_all:
  assumes "list_all (\<lambda>i. stage_status (sl ! i) = StageCompleted) [0..<k]"
    and "k \<le> length PROCESSING_STAGES"
  shows "completed_weight sl k = weight_before k"
proof -
  have "filter (\<lambda>i. stage_status (sl ! i) = StageCompleted) [0..<k] = [0..<k]"
    using assms(1) by (simp add: list_all_iff)
  moreover have "map (\<lambda>i. duration (PROCESSING_STAGES ! i)) [0..<k] =
      map duration (take k PROCESSING_STAGES)"
    using assms(2) by (intro nth_equalityI) simp_all
  ultimately show ?thesis
    by (simp add: completed_weight_def weight_before_def)
qed

subsection \<open>The inner loop\<close>

lemma progress_steps_Cons:
  "\<not> stop_observed w \<Longrightarrow>
   progress_steps fl k cfg (step # rest) sl w =
   progress_steps fl k cfg rest (step_list fl k step sl) (step_world fl k cfg step sl w)"
  by (simp add: step_list_def step_world_def Let_def)

lemma list_all2_update_above:
  assumes "k < length xs" and "progress (xs ! k) \<le> progress x"
  shows "list_all2 (\<lambda>a b. progress a \<le> progress b) xs (xs[k := x])"
  using assms by (auto simp: list_all2_conv_all_nth nth_list_update)

lemma step_inv_weaken:
  assumes "rounding fl" and "lo \<le> hi" and "step_inv fl k lo sl w"
  shows "step_inv fl k hi sl w"
  using assms(3) step_progress_mono[OF assms(1,2)] overall_at_mono[OF assms(1,2), of k]
  by (auto simp: step_inv_def split: option.splits)

lemma step_list_facts:
  "length (step_list fl k step sl) = length sl"
  "i \<noteq> k \<Longrightarrow> step_list fl k step sl ! i = sl ! i"
  "stage_status (step_list fl k step sl ! i) = stage_status (sl ! i)"
  "k < length sl \<Longrightarrow> progress (step_list fl k step sl ! k) = step_progress fl step"
proof -
  show "length (step_list fl k step sl) = length sl"
    by (simp add: step_list_def)
  show "i \<noteq> k \<Longrightarrow> step_list fl k step sl ! i = sl ! i"
    by (simp add: step_list_def)
  show "stage_status (step_list fl k step sl ! i) = stage_status (sl ! i)"
    by (cases "i = k"; cases "k < length sl") (simp_all add: step_list_def list_update_beyond)
  show "k < length sl \<Longrightarrow> progress (step_list fl k step sl ! k) = step_progress fl step"
    by (simp add: step_list_def)
qed

text \<open>One round of the inner loop keeps the invariant, with the step just written.\<close>

lemma step_inv_step:
  assumes r: "rounding fl" and inv: "step_inv fl k lo sl w" and le: "lo \<le> step"
  shows "step_inv fl k step (step_list fl k step sl)
           (step_world fl k (PROCESSING_STAGES ! k) step sl w)"
proof -
  let ?sl = "step_list fl k step sl"
  let ?cfg = "PROCESSING_STAGES ! k"
  from inv obtain p where p: "processing (db w) = Some p" "stages p = sl"
      "overall_progress p \<le> overall_at fl k lo"
    and ok: "run_ok w" and k: "k < length PROCESSING_STAGES"
    and len: "length sl = length PROCESSING_STAGES"
    and cmp: "list_all (\<lambda>i. stage_status (sl ! i) = StageCompleted) [0..<k]"
    and prog: "progress (sl ! k) \<le> step_progress fl lo"
    by (auto simp: step_inv_def split: option.splits)
  have cmp': "list_all (\<lambda>i. stage_status (?sl ! i) = StageCompleted) [0..<k]"
    using cmp by (simp add: step_list_facts)
  have cw: "completed_weight ?sl k = weight_before k"
    using cmp' k by (intro completed_weight_all) simp_all
  let ?p' = "p\<lparr>stages := ?sl, overall_progress := overall_at fl k step\<rparr>"
  let ?f = "update_processing_status
              (\<lambda>p. p\<lparr>stages := ?sl,
                     overall_progress :=
                       min (overall_of fl (completed_weight ?sl k) (step_progress fl step)
                              (duration ?cfg)) 100\<rparr>)"
  have f: "processing (?f (db w)) = Some ?p'"
    using p by (simp add: update_processing_status_def cw overall_at_def)
  have "row_le p ?p'"
    using p prog k len step_progress_mono[OF r le] overall_at_mono[OF r le, of k]
    by (auto simp: row_le_def step_list_def intro!: list_all2_update_above)
  then have "progress_le (db (polled w)) (?f (db (polled w)))"
    using p f by (simp add: progress_le_def)
  moreover have "run_ok (polled w)" using ok by (simp add: run_ok_polled)
  ultimately have ok1: "run_ok (commit ?f (polled w))"
    using f by (intro run_ok_commit) (auto simp: overall_at_bounded)
  have db1: "processing (db (commit ?f (polled w))) = Some ?p'"
    using f by simp
  have "run_ok (step_world fl k ?cfg step sl w) \<and>
        processing (db (step_world fl k ?cfg step sl w)) = Some ?p'"
    using ok1 db1 by (simp add: step_world_def Let_def run_ok_log)
  then show ?thesis
    using k len cmp' by (simp add: step_inv_def step_list_facts)
qed

lemma progress_steps_ok:
  assumes r: "rounding fl"
  shows "step_inv fl k lo sl w \<Longrightarrow> sorted rest \<Longrightarrow> lo \<le> STEPS \<Longrightarrow>
     (\<forall>s \<in> set rest. lo \<le> s \<and> s \<le> STEPS) \<Longrightarrow>
     (case progress_steps fl k (PROCESSING_STAGES ! k) rest sl w of
        (Normal sl', w') \<Rightarrow>
           step_inv fl k STEPS sl' w' \<and>
           (\<forall>i. i \<noteq> k \<longrightarrow> sl' ! i = sl ! i) \<and>
           (\<forall>i. stage_status (sl' ! i) = stage_status (sl ! i))
      | (Returned, w') \<Rightarrow> run_ok w'
      | (Raised e, w') \<Rightarrow> run_ok w')"
proof (induction rest arbitrary: lo sl w)
  case Nil
  then show ?case using step_inv_weaken[OF r] by simp
next
  case (Cons step rest)
  show ?case
  proof (cases "stop_observed w")
    case True
    then show ?thesis using Cons.prems(1) by (simp add: step_inv_def)
  next
    case False
    let ?sl = "step_list fl k step sl"
    let ?w = "step_world fl k (PROCESSING_STAGES ! k) step sl w"
    have le: "lo \<le> step" and st: "step \<le> STEPS" using Cons.prems(4) by simp_all
    have inv: "step_inv fl k step ?sl ?w"
      by (rule step_inv_step[OF r Cons.prems(1) le])
    have rest: "sorted rest" "\<forall>s \<in> set rest. step \<le> s \<and> s \<le> STEPS"
      using Cons.prems(2,4) by auto
    from Cons.IH[OF inv rest(1) st rest(2)]
    show ?thesis
      unfolding progress_steps_Cons[OF False]
      by (auto split: prod.splits outcome.splits simp: step_list_facts)
  qed
qed

lemma emit_stage_logs_ok:
  "run_ok w \<Longrightarrow>
   (case emit_stage_logs ls w of
      (r, w') \<Rightarrow> run_ok w' \<and> processing (db w') = processing (db w))"
proof (induction ls arbitrary: w)
  case Nil
  then show ?case by simp
next
  case (Cons l ls)
  show ?case
  proof (cases "stop_observed w")
    case True
    then show ?thesis using Cons.prems by simp
  next
    case False
    have "run_ok (commit (add_processing_log l Info) (polled w))"
      using Cons.prems by (simp add: run_ok_log run_ok_polled)
    from Cons.IH[OF this] show ?thesis
      using False by (auto split: prod.splits)
  qed
qed

subsection \<open>One stage, all stages\<close>

lemma stage_inv_same_row:
  "stage_inv fl k w \<Longrightarrow> processing (f (db w)) = processing (db w) \<Longrightarrow>
   stage_inv fl k (commit f w)"
  by (auto simp: stage_inv_def run_ok_same_row)

lemma process_stage_unfold:
  assumes "processing (db w) = Some p" and "k < length (stages p)"
  shows "process_stage fl clk k cfg w =
     (let sl1 = (stages p)[k := (stages p ! k)
                   \<lparr>stage_status := StageProcessing, started_at := Some (utcnow clk w),
                    progress := 0\<rparr>];
          w2 = commit (add_processing_log (''Starting '' @ cfg_name cfg @ ''...'') Info)
                 (commit (update_processing_status
                    (\<lambda>q. q\<lparr>stages := sl1, current_stage := k\<rparr>)) w)
      in case progress_steps fl k cfg [0..<STEPS + 1] sl1 w2 of
           (Returned, w3) \<Rightarrow> (Returned, w3)
         | (Raised e, w3) \<Rightarrow> (Raised e, w3)
         | (Normal sl2, w3) \<Rightarrow>
             emit_stage_logs (get_stage_logs (cfg_name cfg))
               (commit (add_processing_log (cfg_name cfg @ '' completed successfully'') Success)
                 (commit (update_processing_status
                    (\<lambda>q. q\<lparr>stages := sl2[k := (sl2 ! k)
                              \<lparr>stage_status := StageCompleted, progress := 100,
                               stage_completed_at := Some (utcnow clk w3)\<rparr>]\<rparr>)) w3)))"
  using assms unfolding process_stage_def Let_def by simp

text \<open>
  A stage that completes leaves the invariant of the next stage; a stage that is stopped
  leaves a run that is fine.
\<close>

lemma process_stage_ok:
  assumes r: "rounding fl" and inv: "stage_inv fl k w" and k: "k < length PROCESSING_STAGES"
  shows "case process_stage fl clk k (PROCESSING_STAGES ! k) w of
           (Normal u, w') \<Rightarrow> stage_inv fl (Suc k) w'
         | (Returned, w') \<Rightarrow> run_ok w'
         | (Raised e, w') \<Rightarrow> run_ok w'"
proof -
  let ?n = "length PROCESSING_STAGES"
  let ?cfg = "PROCESSING_STAGES ! k"
  from inv k obtain p where p: "processing (db w) = Some p"
    and len: "length (stages p) = ?n"
    and cmp: "\<forall>i<k. stage_status (stages p ! i) = StageCompleted"
    and zero: "\<forall>i. k \<le> i \<and> i < ?n \<longrightarrow> progress (stages p ! i) \<le> 0"
    and ov: "overall_progress p \<le> overall_at fl k 0"
    and ok: "run_ok w"
    by (auto simp: stage_inv_def list_all_iff split: option.splits)
  let ?sl1 = "(stages p)[k := (stages p ! k)
                   \<lparr>stage_status := StageProcessing, started_at := Some (utcnow clk w),
                    progress := 0\<rparr>]"
  let ?p1 = "p\<lparr>stages := ?sl1, current_stage := k\<rparr>"
  let ?f1 = "update_processing_status (\<lambda>q. q\<lparr>stages := ?sl1, current_stage := k\<rparr>)"
  let ?w2 = "commit (add_processing_log (''Starting '' @ cfg_name ?cfg @ ''...'') Info)
                 (commit ?f1 w)"
  have f1: "processing (?f1 (db w)) = Some ?p1"
    using p by (simp add: update_processing_status_def)
  have "row_le p ?p1"
    using zero k len by (auto simp: row_le_def intro!: list_all2_update_above)
  then have "progress_le (db w) (?f1 (db w))"
    using p f1 by (simp add: progress_le_def)
  then have "run_ok (commit ?f1 w)"
    using ok f1 run_ok_row_bounded[OF ok p] by (intro run_ok_commit) auto
  then have ok2: "run_ok ?w2" by (rule run_ok_log)
  have p2: "processing (db ?w2) = Some ?p1" using f1 by simp
  have inv2: "step_inv fl k 0 ?sl1 ?w2"
    using ok2 p2 k len cmp ov
    by (simp add: step_inv_def list_all_iff step_progress_0[OF r])
  have steps: "case progress_steps fl k ?cfg [0..<STEPS + 1] ?sl1 ?w2 of
        (Normal sl', w') \<Rightarrow>
           step_inv fl k STEPS sl' w' \<and>
           (\<forall>i. i \<noteq> k \<longrightarrow> sl' ! i = ?sl1 ! i) \<and>
           (\<forall>i. stage_status (sl' ! i) = stage_status (?sl1 ! i))
      | (Returned, w') \<Rightarrow> run_ok w'
      | (Raised e, w') \<Rightarrow> run_ok w'"
  proof (rule progress_steps_ok[OF r inv2])
    show "sorted [0..<STEPS + 1]" by (simp only: sorted_upt)
    show "0 \<le> STEPS" by simp
    show "\<forall>s\<in>set [0..<STEPS + 1]. 0 \<le> s \<and> s \<le> STEPS" by auto
  qed
  have kl: "k < length (stages p)" using k len by simp
  obtain res w3 where run: "progress_steps fl k ?cfg [0..<STEPS + 1] ?sl1 ?w2 = (res, w3)"
    by (cases "progress_steps fl k ?cfg [0..<STEPS + 1] ?sl1 ?w2") auto
  show ?thesis
  proof (cases res)
    case Returned
    then show ?thesis
      using steps run unfolding process_stage_unfold[OF p kl] by (simp add: Let_def)
  next
    case (Raised e)
    then show ?thesis
      using steps run unfolding process_stage_unfold[OF p kl] by (simp add: Let_def)
  next
    case (Normal sl2)
    from steps run Normal have inv3: "step_inv fl k STEPS sl2 w3"
      and same: "\<forall>i. i \<noteq> k \<longrightarrow> sl2 ! i = ?sl1 ! i"
      and stat: "\<forall>i. stage_status (sl2 ! i) = stage_status (?sl1 ! i)"
      by simp_all
    from inv3 obtain p3 where p3: "processing (db w3) = Some p3" "stages p3 = sl2"
        "overall_progress p3 \<le> overall_at fl k STEPS"
      and ok3: "run_ok w3" and len2: "length sl2 = ?n"
      and prog2: "progress (sl2 ! k) \<le> step_progress fl STEPS"
      by (auto simp: step_inv_def split: option.splits)
    define sl3 where "sl3 = sl2[k := (sl2 ! k)\<lparr>stage_status := StageCompleted, progress := 100,
                               stage_completed_at := Some (utcnow clk w3)\<rparr>]"
    let ?p4 = "p3\<lparr>stages := sl3\<rparr>"
    let ?f4 = "update_processing_status (\<lambda>q. q\<lparr>stages := sl3\<rparr>)"
    let ?w5 = "commit (add_processing_log (cfg_name ?cfg @ '' completed successfully'') Success)
                 (commit ?f4 w3)"
    have f4: "processing (?f4 (db w3)) = Some ?p4"
      using p3 by (simp add: update_processing_status_def)
    have "row_le p3 ?p4"
      using p3 prog2 k len2 step_progress_STEPS[OF r]
      by (auto simp: row_le_def sl3_def intro!: list_all2_update_above)
    then have "progress_le (db w3) (?f4 (db w3))"
      using p3 f4 by (simp add: progress_le_def)
    then have "run_ok (commit ?f4 w3)"
      using ok3 f4 run_ok_row_bounded[OF ok3 p3(1)] by (intro run_ok_commit) auto
    then have ok5: "run_ok ?w5" by (rule run_ok_log)
    have p5: "processing (db ?w5) = Some ?p4" using f4 by simp
    obtain r' w' where e: "emit_stage_logs (get_stage_logs (cfg_name ?cfg)) ?w5 = (r', w')"
      by (cases "emit_stage_logs (get_stage_logs (cfg_name ?cfg)) ?w5") auto
    from emit_stage_logs_ok[OF ok5, of "get_stage_logs (cfg_name ?cfg)"] e p5
    have ok': "run_ok w'" and p': "processing (db w') = Some ?p4" by simp_all
    have res: "process_stage fl clk k ?cfg w = (r', w')"
      using run Normal e unfolding process_stage_unfold[OF p kl] sl3_def
      by (simp add: Let_def)
    have len3: "length sl3 = ?n" using len2 by (simp add: sl3_def)
    have c1: "stage_status (sl3 ! i) = StageCompleted" if "i < Suc k" for i
    proof -
      from that consider "i = k" | "i < k" by linarith
      then show ?thesis
      proof cases
        case 1
        then show ?thesis using k len2 by (simp add: sl3_def)
      next
        case 2
        then show ?thesis using stat cmp by (simp add: sl3_def)
      qed
    qed
    have c2: "progress (sl3 ! i) \<le> 0" if "Suc k \<le> i" "i < ?n" for i
      using that same zero by (simp add: sl3_def)
    have c3: "Suc k < ?n \<Longrightarrow> overall_progress ?p4 \<le> overall_at fl (Suc k) 0"
      using p3(3) overall_at_next[OF r] by simp
    have "stage_inv fl (Suc k) w'"
      using ok' p' len3 c1 c2 c3 by (auto simp: stage_inv_def list_all_iff)
    then show ?thesis
      using res ok' by (cases r') simp_all
  qed
qed

lemma enumerate_drop_step:
  "k < length xs \<Longrightarrow>
   enumerate k (drop k xs) = (k, xs ! k) # enumerate (Suc k) (drop (Suc k) xs)"
  by (simp add: Cons_nth_drop_Suc[symmetric])

lemma process_stages_ok:
  assumes r: "rounding fl"
  shows "n = length PROCESSING_STAGES - k \<Longrightarrow> k \<le> length PROCESSING_STAGES \<Longrightarrow>
     stage_inv fl k w \<Longrightarrow>
     (case process_stages fl clk (enumerate k (drop k PROCESSING_STAGES)) w of
        (Normal u, w') \<Rightarrow> stage_inv fl (length PROCESSING_STAGES) w'
      | (Returned, w') \<Rightarrow> run_ok w'
      | (Raised e, w') \<Rightarrow> run_ok w')"
proof (induction n arbitrary: k w)
  case 0
  then show ?case by simp
next
  case (Suc n)
  then have k: "k < length PROCESSING_STAGES" by simp
  obtain res w1 where s: "process_stage fl clk k (PROCESSING_STAGES ! k) w = (res, w1)"
    by (cases "process_stage fl clk k (PROCESSING_STAGES ! k) w") auto
  from process_stage_ok[OF r Suc.prems(3) k, of clk] s
  have post: "case res of Normal u \<Rightarrow> stage_inv fl (Suc k) w1
               | Returned \<Rightarrow> run_ok w1 | Raised e \<Rightarrow> run_ok w1"
    by simp
  show ?case
  proof (cases res)
    case (Normal u)
    with post have inv: "stage_inv fl (Suc k) w1" by simp
    have "case process_stages fl clk (enumerate (Suc k) (drop (Suc k) PROCESSING_STAGES)) w1 of
        (Normal u, w') \<Rightarrow> stage_inv fl (length PROCESSING_STAGES) w'
      | (Returned, w') \<Rightarrow> run_ok w'
      | (Raised e, w') \<Rightarrow> run_ok w'"
      by (rule Suc.IH[OF _ _ inv]) (use Suc.prems k in simp_all)
    then show ?thesis
      using s Normal by (simp add: enumerate_drop_step[OF k])
  next
    case Returned
    then show ?thesis using s post by (simp add: enumerate_drop_step[OF k])
  next
    case (Raised e)
    then show ?thesis using s post by (simp add: enumerate_drop_step[OF k])
  qed
qed

subsection \<open>The whole run\<close>

lemma processing_update_session [simp]:
  "processing (update_session u t s) = processing s"
  by (simp add: update_session_def)

lemma processing_add_message [simp]: "processing (add_message m t s) = processing s"
  by (simp add: add_message_def)

lemma processing_update_message_status [simp]:
  "processing (update_message_status ty st s) = processing s"
  by (simp add: update_message_status_def)

lemma run_ok_update:
  assumes "run_ok w"
    and "\<And>p. processing (db w) = Some p \<Longrightarrow> overall_progress p \<le> 100 \<Longrightarrow>
           row_le p (g p) \<and> overall_progress (g p) \<le> 100"
  shows "run_ok (commit (update_processing_status g) w)"
proof -
  from run_ok_row[OF assms(1)] obtain p where p: "processing (db w) = Some p" by auto
  have g: "row_le p (g p)" "overall_progress (g p) \<le> 100"
    using assms(2)[OF p run_ok_row_bounded[OF assms(1) p]] by simp_all
  have f: "processing (update_processing_status g (db w)) = Some (g p)"
    using p by (simp add: update_processing_status_def)
  have "progress_le (db w) (update_processing_status g (db w))"
    using p f g by (simp add: progress_le_def)
  then show ?thesis
    using assms(1) f g by (intro run_ok_commit) auto
qed

lemma finish_processing_ok:
  assumes "run_ok w"
  shows "run_ok (finish_processing clk w)"
proof -
  have 1: "run_ok (commit (update_processing_status
              (\<lambda>q. q\<lparr>p_status := ProcCompleted, overall_progress := 100,
                     p_completed_at := Some (utcnow clk w)\<rparr>)) w)"
    using assms by (rule run_ok_update) (simp add: row_le_def list_all2_refl)
  show ?thesis
    unfolding finish_processing_def Let_def
    by (rule run_ok_same_row[OF run_ok_same_row[OF run_ok_same_row[OF
          run_ok_log[OF run_ok_log[OF run_ok_log[OF 1]]]]]]) simp_all
qed

lemma process_analytics_failed_ok:
  assumes "run_ok w"
  shows "run_ok (process_analytics_failed e w)"
  unfolding process_analytics_failed_def Let_def
  by (rule run_ok_update[OF run_ok_log[OF assms]]) (simp add: row_le_def list_all2_refl)

lemma process_analytics_body_ok:
  assumes r: "rounding fl" and inv: "stage_inv fl 0 w"
  shows "case process_analytics_body fl clk w of (res, w') \<Rightarrow> run_ok w'"
proof -
  let ?w2 = "commit (add_processing_log
                 (EMOJI_BRAIN @ '' Loading analytical models and domain expertise'') Info)
               (commit (add_processing_log
                 (EMOJI_ROCKET @ '' Initializing BLUE SHERPA cognitive processing pipeline'')
                 Info) w)"
  have inv2: "stage_inv fl 0 ?w2"
    using inv by (intro stage_inv_same_row) simp_all
  then have ok2: "run_ok ?w2" by (simp add: stage_inv_def)
  from run_ok_row[OF ok2] obtain p where p: "processing (db ?w2) = Some p" by auto
  have "case process_stages fl clk (enumerate 0 (drop 0 PROCESSING_STAGES)) ?w2 of
        (Normal u, w') \<Rightarrow> stage_inv fl (length PROCESSING_STAGES) w'
      | (Returned, w') \<Rightarrow> run_ok w'
      | (Raised e, w') \<Rightarrow> run_ok w'"
    by (rule process_stages_ok[OF r _ _ inv2]) simp_all
  then show ?thesis
    using p unfolding process_analytics_body_def Let_def
    by (auto split: prod.splits outcome.splits simp: stage_inv_def finish_processing_ok)
qed

lemma process_analytics_ok:
  assumes "rounding fl" and "stage_inv fl 0 w"
  shows "run_ok (process_analytics_with_context fl clk w)"
  using process_analytics_body_ok[OF assms, of clk]
  by (auto simp: process_analytics_with_context_def process_analytics_def try_except_def
        process_analytics_failed_ok split: prod.splits outcome.splits)

lemma start_post_row:
  assumes "processing_start_post clk req s0 = Inr (cfg, s)"
  shows "processing s =
     Some \<lparr>p_status = ProcProcessing, current_stage = 0, overall_progress = 0,
           stages = map (\<lambda>stage_config.
                  \<lparr>stage_id = cfg_id stage_config, stage_name = cfg_name stage_config,
                   icon = cfg_icon stage_config, stage_status = Queued, progress = 0,
                   started_at = None, stage_completed_at = None\<rparr>) PROCESSING_STAGES,
           config = cfg, p_completed_at = None, error = None\<rparr>"
  using assms
  by (cases "processing s0"; cases "ambiguity s0")
     (auto simp: processing_start_post_def create_processing_status_def Let_def
        update_session_def complete_ambiguity_resolution_def clear_processing_logs_def
        delete_processing_status_def)

lemma overall_at_start: "rounding fl \<Longrightarrow> overall_at fl 0 0 = 0"
  by (simp add: overall_at_def overall_of_def weight_before_def step_progress_0 rounding_0)

lemma stage_inv_start:
  assumes "rounding fl" and "processing_start_post clk req s0 = Inr (cfg, s)"
  shows "stage_inv fl 0 (thread_start n s)"
  using start_post_row[OF assms(2)] overall_at_start[OF assms(1)]
  by (simp add: stage_inv_def run_ok_def progress_monotone_def progress_bounded_def
        history_def thread_start_def list_all_iff)

text \<open>
  Claim C4.  A run is the thread working on the state a start request has committed,
  with a stop request observed at any of its stop checks or at none (\<open>n\<close> is the number
  of checks that pass).  Whatever the rounding of the float operations, as long as it is
  monotone and exact on the natural numbers up to 100, the states the run commits are
  ordered: from each one to every later one, the overall progress and the progress of
  every stage do not decrease.  Every committed state has an overall progress of at most
  100.
\<close>

theorem progress_never_decreases:
  assumes "rounding fl" and "processing_start_post clk0 req s0 = Inr (cfg, s)"
  shows "progress_monotone (process_analytics_with_context fl clk (thread_start n s)) \<and>
         progress_bounded (process_analytics_with_context fl clk (thread_start n s))"
  using process_analytics_ok[OF assms(1) stage_inv_start[OF assms], of clk n]
  by (simp add: run_ok_def)

lemma rounding_exact: "rounding (\<lambda>x. x)"
  by (simp add: rounding_def mono_def)

lemma finance_started_eq:
  "\<exists>cfg. processing_start_post example_clock default_request finance_answered =
     Inr (cfg, finance_started)"
  using start_post_result[of example_clock default_request finance_answered]
  by (auto simp: finance_started_def)

theorem progress_never_decreases_witness:
  "rounding (\<lambda>x. x) \<and>
   started_state (processing_start_post example_clock default_request finance_answered) =
     Some finance_started \<and>
   progress_monotone
     (process_analytics_with_context (\<lambda>x. x) example_clock (thread_start 20 finance_started)) \<and>
   progress_bounded
     (process_analytics_with_context (\<lambda>x. x) example_clock (thread_start 20 finance_started))"
proof -
  from finance_started_eq obtain cfg where
    s: "processing_start_post example_clock default_request finance_answered =
          Inr (cfg, finance_started)"
    by blast
  from progress_never_decreases [OF rounding_exact s, of example_clock 20]
  show ?thesis
    using s rounding_exact by (simp add: started_state_def)
qed

section \<open>A run that is not stopped\<close>

lemma polls_commit [simp]: "polls (commit f w) = polls w"
  by (simp add: commit_def)

lemma polls_polled [simp]: "polls (polled w) = polls w - 1"
  by (simp add: polled_def)

lemma fields_add_processing_log [simp]:
  "session (add_processing_log m ty s) = session s"
  "messages (add_processing_log m ty s) = messages s"
  "ambiguity (add_processing_log m ty s) = ambiguity s"
  "cycles (add_processing_log m ty s) = cycles s"
  by (simp_all add: add_processing_log_def split: option.splits)

lemma fields_update_processing_status [simp]:
  "session (update_processing_status g s) = session s"
  "messages (update_processing_status g s) = messages s"
  "ambiguity (update_processing_status g s) = ambiguity s"
  "cycles (update_processing_status g s) = cycles s"
  "logs (update_processing_status g s) = logs s"
  by (simp_all add: update_processing_status_def split: option.splits)







lemma running_polled [simp]: "running n (polled w) = running n w"
  by (simp add: running_def)













lemma set_first_status_snoc:
  "m_type m \<noteq> ty \<Longrightarrow> set_first_status ty st (ms @ [m]) = set_first_status ty st ms @ [m]"
  by (induction ms) auto

lemma last_content_report:
  "last_content (s\<lparr>messages := set_first_status AmbiguityMessage MsgCompleted
                      (ms @ [report_message r])\<rparr>) = Some r"
  by (simp add: last_content_def set_first_status_snoc report_message_def)




section \<open>The two report tables\<close>
















section \<open>Exceptions of the background thread\<close>

lemma try_except_never_raises: "fst (try_except body handler w) = None"
  by (simp add: try_except_def split: prod.splits outcome.splits)

text \<open>
  Whatever the body of the \<^verbatim>\<open>try\<close> does: when it raises, what is left is the state at the
  exception with the handler's two writes.
\<close>

lemma try_except_raised:
  "body w = (Raised e, w1) \<Longrightarrow> try_except body handler w = (None, handler e w1)"
  by (simp add: try_except_def)


text \<open>The thread never deletes the ProcessingStatus row.\<close>

lemma row_kept_update:
  "processing s \<noteq> None \<Longrightarrow> processing (update_processing_status g s) \<noteq> None"
  by (auto simp: update_processing_status_def)










end
